theory Spec2Isabelle
  imports Complex_Main "HOL-Library.Sublist"
begin

section \<open>Strings (Go package \<open>strings\<close>)\<close>

text \<open>
  A Go string is a sequence of bytes; it is modelled as a \<open>string\<close> (a list of 8-bit
  characters), and \<open>len\<close> is \<open>length\<close>.  The functions below are the ones of Go's
  standard library that the program calls, on single-byte separators.
\<close>

text \<open>\<open>strings.Split(s, sep)\<close> for a one-byte separator: never the empty list.\<close>

fun strings_Split :: "string \<Rightarrow> char \<Rightarrow> string list" where
  "strings_Split [] sep = [[]]"
| "strings_Split (c # cs) sep =
     (if c = sep then [] # strings_Split cs sep
      else (case strings_Split cs sep of
              [] \<Rightarrow> [[c]]
            | x # xs \<Rightarrow> (c # x) # xs))"

text \<open>\<open>strings.Join(elems, sep)\<close>.\<close>

fun strings_Join :: "string list \<Rightarrow> string \<Rightarrow> string" where
  "strings_Join [] sep = []"
| "strings_Join [x] sep = x"
| "strings_Join (x # y # ys) sep = x @ sep @ strings_Join (y # ys) sep"

text \<open>\<open>strings.Index(s, string(c))\<close>: the first index of the byte, \<open>-1\<close> when absent.\<close>

fun strings_Index :: "string \<Rightarrow> char \<Rightarrow> int" where
  "strings_Index [] c = -1"
| "strings_Index (x # xs) c =
     (if x = c then 0
      else (let i = strings_Index xs c in if i < 0 then -1 else i + 1))"

definition strings_HasPrefix :: "string \<Rightarrow> string \<Rightarrow> bool" where
  "strings_HasPrefix s p = prefix p s"

definition strings_HasSuffix :: "string \<Rightarrow> string \<Rightarrow> bool" where
  "strings_HasSuffix s p = suffix p s"

text \<open>\<open>strings.Contains(s, string(c))\<close>.\<close>

definition strings_Contains :: "string \<Rightarrow> char \<Rightarrow> bool" where
  "strings_Contains s c = (c \<in> set s)"

text \<open>\<open>strings.TrimRight(s, cutset)\<close> for a cutset of single-byte characters.\<close>

definition strings_TrimRight :: "string \<Rightarrow> char list \<Rightarrow> string" where
  "strings_TrimRight s cutset = rev (dropWhile (\<lambda>c. c \<in> set cutset) (rev s))"

section \<open>Paths (Go package \<open>path/filepath\<close>, Unix)\<close>

text \<open>
  \<open>filepath.Clean\<close>, by its documented rules: runs of separators count as one, every
  \<open>.\<close> element is dropped, every inner \<open>..\<close> is dropped together with the element before
  it, a \<open>..\<close> that would climb above the root of a rooted path is dropped, and the empty
  result is \<open>.\<close>.  \<open>clean_elems\<close> walks the elements from left to right and keeps the stack of
  elements written so far, last one first.
\<close>

fun clean_elems :: "bool \<Rightarrow> string list \<Rightarrow> string list \<Rightarrow> string list" where
  "clean_elems rooted out [] = rev out"
| "clean_elems rooted out (e # es) =
     (if e = [] \<or> e = ''.'' then clean_elems rooted out es
      else if e = ''..'' then
        (case out of
           [] \<Rightarrow> if rooted then clean_elems rooted [] es
                else clean_elems rooted [''..''] es
         | t # ts \<Rightarrow> if t = ''..'' then clean_elems rooted (''..'' # out) es
                     else clean_elems rooted ts es)
      else clean_elems rooted (e # out) es)"

definition filepath_Clean :: "string \<Rightarrow> string" where
  "filepath_Clean path =
     (if path = [] then ''.''
      else (let rooted = (hd path = CHR ''/'');
                body = strings_Join (clean_elems rooted [] (strings_Split path (CHR ''/''))) ''/''
            in if rooted then CHR ''/'' # body
               else if body = [] then ''.'' else body))"

definition filepath_IsAbs :: "string \<Rightarrow> bool" where
  "filepath_IsAbs path = strings_HasPrefix path ''/''"

text \<open>\<open>filepath.Base\<close>: the last element, after trailing separators are stripped.\<close>

definition filepath_Base :: "string \<Rightarrow> string" where
  "filepath_Base path =
     (if path = [] then ''.''
      else (let p = rev (dropWhile (\<lambda>c. c = CHR ''/'') (rev path));
                b = rev (takeWhile (\<lambda>c. c \<noteq> CHR ''/'') (rev p))
            in if b = [] then ''/'' else b))"

text \<open>\<open>filepath.Dir\<close>: everything up to the last separator, cleaned.\<close>

definition filepath_Dir :: "string \<Rightarrow> string" where
  "filepath_Dir path = filepath_Clean (rev (dropWhile (\<lambda>c. c \<noteq> CHR ''/'') (rev path)))"

text \<open>\<open>filepath.Join(wd, path)\<close> on two elements: empty elements are ignored.\<close>

definition filepath_Join :: "string \<Rightarrow> string \<Rightarrow> string" where
  "filepath_Join a b =
     (if a \<noteq> [] then filepath_Clean (a @ ''/'' @ b)
      else if b \<noteq> [] then filepath_Clean b
      else [])"

section \<open>Shell patterns (\<open>filepath.Match\<close>)\<close>

text \<open>
  \<open>utf8.DecodeRuneInString\<close>: the code point at the head of the string and the number
  of bytes it takes; an invalid or truncated encoding is \<open>RuneError\<close> of width 1.
\<close>

definition RuneError :: nat where
  "RuneError = 0xFFFD"

definition byte_of :: "char \<Rightarrow> nat" where
  "byte_of c = of_char c"

definition continuation :: "nat \<Rightarrow> bool" where
  "continuation b = (0x80 \<le> b \<and> b \<le> 0xBF)"

fun utf8_DecodeRuneInString :: "string \<Rightarrow> nat \<times> nat" where
  "utf8_DecodeRuneInString [] = (RuneError, 0)"
| "utf8_DecodeRuneInString (c0 # rest) =
     (let s0 = byte_of c0 in
      if s0 < 0x80 then (s0, 1)
      else if s0 < 0xC2 \<or> 0xF4 < s0 then (RuneError, 1)
      else
        (let sz = (if s0 < 0xE0 then 2 else if s0 < 0xF0 then 3 else (4::nat));
             lo = (if s0 = 0xE0 then 0xA0 else if s0 = 0xF0 then 0x90 else 0x80);
             hi = (if s0 = 0xED then 0x9F else if s0 = 0xF4 then 0x8F else 0xBF)
         in if length (c0 # rest) < sz then (RuneError, 1)
            else
              (let s1 = byte_of (rest ! 0) in
               if s1 < lo \<or> hi < s1 then (RuneError, 1)
               else if sz \<le> 2 then ((s0 mod 32) * 64 + s1 mod 64, 2)
               else
                 (let s2 = byte_of (rest ! 1) in
                  if \<not> continuation s2 then (RuneError, 1)
                  else if sz \<le> 3 then
                    ((s0 mod 16) * 4096 + (s1 mod 64) * 64 + s2 mod 64, 3)
                  else
                    (let s3 = byte_of (rest ! 2) in
                     if \<not> continuation s3 then (RuneError, 1)
                     else ((s0 mod 8) * 262144 + (s1 mod 64) * 4096
                             + (s2 mod 64) * 64 + s3 mod 64, 4))))))"

datatype match_err = ErrBadPattern

text \<open>
  \<open>scanChunk\<close>: leading stars are skipped (and remembered), then the chunk runs up to the
  next star that stands outside a bracket class; a backslash protects the byte after it.
\<close>

fun scan_body :: "bool \<Rightarrow> string \<Rightarrow> string \<times> string" where
  "scan_body inrange [] = ([], [])"
| "scan_body inrange [c] = (if c = CHR ''*'' \<and> \<not> inrange then ([], [c]) else ([c], []))"
| "scan_body inrange (c # d # ds) =
     (if c = CHR 0x5C then
        (let (chunk, rest) = scan_body inrange ds in (c # d # chunk, rest))
      else if c = CHR ''['' then
        (let (chunk, rest) = scan_body True (d # ds) in (c # chunk, rest))
      else if c = CHR '']'' then
        (let (chunk, rest) = scan_body False (d # ds) in (c # chunk, rest))
      else if c = CHR ''*'' \<and> \<not> inrange then ([], c # d # ds)
      else (let (chunk, rest) = scan_body inrange (d # ds) in (c # chunk, rest)))"

definition scanChunk :: "string \<Rightarrow> bool \<times> string \<times> string" where
  "scanChunk pattern =
     (let p = dropWhile (\<lambda>c. c = CHR ''*'') pattern;
          (chunk, rest) = scan_body False p
      in (pattern \<noteq> [] \<and> hd pattern = CHR ''*'', chunk, rest))"

text \<open>\<open>getEsc\<close>: one possibly escaped character of a bracket class.\<close>

definition getEsc :: "string \<Rightarrow> match_err + (nat \<times> string)" where
  "getEsc chunk =
     (if chunk = [] \<or> hd chunk = CHR ''-'' \<or> hd chunk = CHR '']'' then Inl ErrBadPattern
      else
        (let chunk1 = (if hd chunk = CHR 0x5C then tl chunk else chunk) in
         if chunk1 = [] then Inl ErrBadPattern
         else
           (let (r, n) = utf8_DecodeRuneInString chunk1;
                nchunk = drop n chunk1
            in if (r = RuneError \<and> n = 1) \<or> nchunk = [] then Inl ErrBadPattern
               else Inr (r, nchunk))))"

lemma utf8_DecodeRuneInString_width:
  "s \<noteq> [] \<Longrightarrow> 1 \<le> snd (utf8_DecodeRuneInString s)"
  by (cases s) (auto simp: Let_def)

lemma getEsc_shorter:
  assumes "getEsc chunk = Inr (r, nchunk)"
  shows "length nchunk < length chunk"
proof -
  define chunk1 where "chunk1 = (if hd chunk = CHR 0x5C then tl chunk else chunk)"
  from assms have ne: "chunk \<noteq> []" and ne1: "chunk1 \<noteq> []"
    by (auto simp: getEsc_def chunk1_def Let_def split: if_splits)
  from assms have n: "nchunk = drop (snd (utf8_DecodeRuneInString chunk1)) chunk1"
    by (auto simp: getEsc_def chunk1_def Let_def split: if_splits prod.splits)
  have "1 \<le> snd (utf8_DecodeRuneInString chunk1)"
    using ne1 by (rule utf8_DecodeRuneInString_width)
  then have "length nchunk < length chunk1"
    using ne1 n by (cases chunk1) auto
  moreover have "length chunk1 \<le> length chunk"
    by (simp add: chunk1_def)
  ultimately show ?thesis by simp
qed

text \<open>
  The ranges of a bracket class, up to the closing bracket: \<open>r\<close> is the character of the
  name under test, \<open>nrange\<close> counts the ranges read, \<open>matched\<close> records a hit.
\<close>

function class_ranges ::
  "nat \<Rightarrow> nat \<Rightarrow> bool \<Rightarrow> string \<Rightarrow> match_err + (bool \<times> string)" where
  "class_ranges r nrange matched chunk =
     (if chunk \<noteq> [] \<and> hd chunk = CHR '']'' \<and> 0 < nrange then Inr (matched, tl chunk)
      else
        (case getEsc chunk of
           Inl e \<Rightarrow> Inl e
         | Inr (lo, chunk1) \<Rightarrow>
             if hd chunk1 = CHR ''-'' then
               (case getEsc (tl chunk1) of
                  Inl e \<Rightarrow> Inl e
                | Inr (hi, chunk2) \<Rightarrow>
                    class_ranges r (nrange + 1) (matched \<or> (lo \<le> r \<and> r \<le> hi)) chunk2)
             else class_ranges r (nrange + 1) (matched \<or> r = lo) chunk1))"
  by pat_completeness auto
termination
proof (relation "measure (\<lambda>(r, nrange, matched, chunk). length chunk)", goal_cases)
  case 1
  show ?case by simp
next
  case (2 r nrange matched chunk x2 lo chunk1 x2a hi chunk2)
  have "length chunk1 < length chunk"
    using 2 getEsc_shorter[of chunk lo chunk1] by simp
  moreover have "length chunk2 < length (tl chunk1)"
    using 2 getEsc_shorter[of "tl chunk1" hi chunk2] by simp
  ultimately show ?case by simp
next
  case (3 r nrange matched chunk x2 lo chunk1)
  then show ?case using getEsc_shorter[of chunk lo chunk1] by simp
qed

declare class_ranges.simps [simp del]

lemma class_ranges_shorter:
  "class_ranges r nrange matched chunk = Inr (m, chunk') \<Longrightarrow> length chunk' < length chunk"
proof (induction r nrange matched chunk rule: class_ranges.induct)
  case (1 r nrange matched chunk)
  define stop where "stop \<longleftrightarrow> chunk \<noteq> [] \<and> hd chunk = CHR '']'' \<and> 0 < nrange"
  have unfolded: "class_ranges r nrange matched chunk =
      (if stop then Inr (matched, tl chunk)
       else
        (case getEsc chunk of
           Inl e \<Rightarrow> Inl e
         | Inr (lo, chunk1) \<Rightarrow>
             if hd chunk1 = CHR ''-'' then
               (case getEsc (tl chunk1) of
                  Inl e \<Rightarrow> Inl e
                | Inr (hi, chunk2) \<Rightarrow>
                    class_ranges r (nrange + 1) (matched \<or> (lo \<le> r \<and> r \<le> hi)) chunk2)
             else class_ranges r (nrange + 1) (matched \<or> r = lo) chunk1))"
    unfolding stop_def by (rule class_ranges.simps)
  show ?case
  proof (cases stop)
    case True
    then have "chunk \<noteq> []" by (simp add: stop_def)
    with True "1.prems" show ?thesis unfolding unfolded by (cases chunk) auto
  next
    case False
    then have nstop: "\<not> (chunk \<noteq> [] \<and> hd chunk = CHR '']'' \<and> 0 < nrange)"
      by (simp add: stop_def)
    from False "1.prems" obtain lo chunk1 where g1: "getEsc chunk = Inr (lo, chunk1)"
      unfolding unfolded by (auto split: sum.splits)
    have l1: "length chunk1 < length chunk" using g1 by (rule getEsc_shorter)
    show ?thesis
    proof (cases "hd chunk1 = CHR ''-''")
      case True
      from False True g1 "1.prems" obtain hi chunk2 where g2: "getEsc (tl chunk1) = Inr (hi, chunk2)"
        unfolding unfolded by (auto split: sum.splits)
      have l2: "length chunk2 < length (tl chunk1)" using g2 by (rule getEsc_shorter)
      have "class_ranges r (nrange + 1) (matched \<or> (lo \<le> r \<and> r \<le> hi)) chunk2 = Inr (m, chunk')"
        using False True g1 g2 "1.prems" unfolding unfolded by simp
      then have "length chunk' < length chunk2"
        using "1.IH"(1)[OF nstop g1 refl True g2 refl] by simp
      then show ?thesis using l1 l2 by simp
    next
      case F2: False
      have "class_ranges r (nrange + 1) (matched \<or> r = lo) chunk1 = Inr (m, chunk')"
        using False F2 g1 "1.prems" unfolding unfolded by simp
      then have "length chunk' < length chunk1"
        using "1.IH"(2)[OF nstop g1 refl F2] by simp
      then show ?thesis using l1 by simp
    qed
  qed
qed

text \<open>
  \<open>matchChunk\<close>: the chunk against a prefix of the name.  Once the match has failed the
  loop goes on reading the chunk, to report a malformed pattern, but no longer reads the
  name.  The result is the error, or the rest of the name when the chunk matched.
\<close>

function matchChunk_loop :: "bool \<Rightarrow> string \<Rightarrow> string \<Rightarrow> match_err + string option" where
  "matchChunk_loop failed [] s = Inr (if failed then None else Some s)"
| "matchChunk_loop failed0 (c # chunk) s =
     (let failed = (failed0 \<or> s = []) in
      if c = CHR ''['' then
        (let r = (if failed then 0 else fst (utf8_DecodeRuneInString s));
             s1 = (if failed then s else drop (snd (utf8_DecodeRuneInString s)) s);
             negated = (chunk \<noteq> [] \<and> hd chunk = CHR ''^'');
             chunk1 = (if negated then tl chunk else chunk)
         in case class_ranges r 0 False chunk1 of
              Inl e \<Rightarrow> Inl e
            | Inr (matched, chunk2) \<Rightarrow>
                matchChunk_loop (failed \<or> matched = negated) chunk2 s1)
      else if c = CHR ''?'' then
        (if failed then matchChunk_loop failed chunk s
         else matchChunk_loop (hd s = CHR ''/'') chunk
                (drop (snd (utf8_DecodeRuneInString s)) s))
      else if c = CHR 0x5C then
        (case chunk of
           [] \<Rightarrow> Inl ErrBadPattern
         | d # chunk' \<Rightarrow>
             if failed then matchChunk_loop failed chunk' s
             else matchChunk_loop (d \<noteq> hd s) chunk' (tl s))
      else
        (if failed then matchChunk_loop failed chunk s
         else matchChunk_loop (c \<noteq> hd s) chunk (tl s)))"
  by pat_completeness auto
termination
proof (relation "measure (\<lambda>(failed, chunk, s). length chunk)", goal_cases)
  case (2 failed0 c chunk s failed r s1 negated chunk1 x2 matched chunk2)
  then have "length chunk2 < length chunk1"
    using class_ranges_shorter[of r 0 False chunk1 matched chunk2] by simp
  moreover have "length chunk1 \<le> length chunk" using 2 by simp
  ultimately show ?case by simp
qed auto

declare matchChunk_loop.simps(2) [simp del]

definition matchChunk :: "string \<Rightarrow> string \<Rightarrow> match_err + string option" where
  "matchChunk chunk s = matchChunk_loop False chunk s"

text \<open>
  After a star, the chunk is tried at every later position of the name, up to the
  first separator; \<open>final\<close> says that no pattern follows, so that the chunk has to
  use up the name.
\<close>

fun star_scan :: "string \<Rightarrow> bool \<Rightarrow> string \<Rightarrow> match_err + string option" where
  "star_scan chunk final [] = Inr None"
| "star_scan chunk final (c # cs) =
     (if c = CHR ''/'' then Inr None
      else
        (case matchChunk chunk cs of
           Inl e \<Rightarrow> Inl e
         | Inr (Some t) \<Rightarrow> if final \<and> t \<noteq> [] then star_scan chunk final cs else Inr (Some t)
         | Inr None \<Rightarrow> star_scan chunk final cs))"

lemma scan_body_shorter: "length (snd (scan_body inrange p)) \<le> length p"
  by (induction inrange p rule: scan_body.induct) (auto split: prod.splits)

lemma scan_body_progress:
  "p \<noteq> [] \<Longrightarrow> hd p \<noteq> CHR ''*'' \<Longrightarrow> length (snd (scan_body inrange p)) < length p"
proof (cases p)
  case Nil
  assume "p \<noteq> []" with Nil show ?thesis by simp
next
  case (Cons c cs)
  assume h: "hd p \<noteq> CHR ''*''"
  show ?thesis
  proof (cases cs)
    case Nil
    with Cons h show ?thesis by simp
  next
    case (Cons d ds)
    have a: "length (snd (scan_body b (d # ds))) \<le> Suc (length ds)" for b
      using scan_body_shorter[of b "d # ds"] by simp
    have b: "length (snd (scan_body inrange ds)) \<le> length ds"
      by (rule scan_body_shorter)
    from \<open>p = c # cs\<close> Cons h a[of True] a[of False] a[of inrange] b show ?thesis
      by (auto split: prod.splits simp: le_imp_less_Suc less_Suc_eq_le)
  qed
qed

lemma scanChunk_shorter:
  assumes "pattern \<noteq> []" and "scanChunk pattern = (star, chunk, rest)"
  shows "length rest < length pattern"
proof -
  define p where "p = dropWhile (\<lambda>c. c = CHR ''*'') pattern"
  have r: "rest = snd (scan_body False p)"
    using assms(2) by (auto simp: scanChunk_def p_def Let_def split: prod.splits)
  have le: "length p \<le> length pattern"
    by (simp add: p_def length_dropWhile_le)
  show ?thesis
  proof (cases "hd pattern = CHR ''*''")
    case True
    then have "length p < length pattern"
      using assms(1) by (cases pattern) (auto simp: p_def intro: le_imp_less_Suc length_dropWhile_le)
    then show ?thesis using scan_body_shorter[of False p] r by simp
  next
    case False
    then have "p = pattern" using assms(1) by (cases pattern) (auto simp: p_def)
    then show ?thesis using scan_body_progress[of p False] False assms(1) r by simp
  qed
qed

text \<open>
  Before \<open>Match\<close> answers \<open>false\<close> it checks that the rest of the pattern is well formed.
\<close>

function check_rest :: "string \<Rightarrow> match_err + bool" where
  "check_rest pattern =
     (if pattern = [] then Inr False
      else
        (case scanChunk pattern of
           (star, chunk, rest) \<Rightarrow>
             (case matchChunk chunk [] of
                Inl e \<Rightarrow> Inl e
              | Inr t \<Rightarrow> check_rest rest)))"
  by pat_completeness auto
termination
  by (relation "measure length") (auto dest: scanChunk_shorter[OF _ sym])

declare check_rest.simps [simp del]

text \<open>\<open>filepath.Match(pattern, name)\<close>: \<open>Inr matched\<close>, or \<open>Inl ErrBadPattern\<close>.\<close>

function filepath_Match :: "string \<Rightarrow> string \<Rightarrow> match_err + bool" where
  "filepath_Match pattern name =
     (if pattern = [] then Inr (name = [])
      else
        (case scanChunk pattern of
           (star, chunk, rest) \<Rightarrow>
             if star \<and> chunk = [] then Inr (CHR ''/'' \<notin> set name)
             else
               (case matchChunk chunk name of
                  Inl e \<Rightarrow> Inl e
                | Inr ok \<Rightarrow>
                    if ok \<noteq> None \<and> (the ok = [] \<or> rest \<noteq> []) then filepath_Match rest (the ok)
                    else if star then
                      (case star_scan chunk (rest = []) name of
                         Inl e \<Rightarrow> Inl e
                       | Inr (Some t) \<Rightarrow> filepath_Match rest t
                       | Inr None \<Rightarrow> check_rest rest)
                    else check_rest rest)))"
  by pat_completeness auto
termination
  by (relation "measure (\<lambda>(pattern, name). length pattern)")
     (auto dest: scanChunk_shorter[OF _ sym])

declare filepath_Match.simps [simp del]

section \<open>The sensitive-path filter (\<open>ignore.go\<close>)\<close>

definition defaultBlockedPatterns :: "string list" where
  "defaultBlockedPatterns =
     [''.env'', ''.env.*'', ''*.pem'', ''*.key'', ''*.p12'', ''*.pfx'', ''*.secret'',
      ''*credentials*'', ''*secret*'', ''.aws/credentials'', ''.ssh/*'', ''id_rsa'',
      ''id_ed25519'', ''*.keystore'', ''.netrc'', ''.npmrc'', ''.pypirc'']"

text \<open>
  \<open>LoadIgnorePatterns\<close> appends the defaults to the global \<open>blockedPatterns\<close>, then the
  lines of \<open>.codequeryignore\<close> when the file opens (\<open>None\<close>: it does not), trimmed, without
  the empty ones and the comments.  The lines are given as the scanner yields them, and
  \<open>strings.TrimSpace\<close> is a parameter.
\<close>

definition LoadIgnorePatterns ::
  "(string \<Rightarrow> string) \<Rightarrow> string list option \<Rightarrow> string list \<Rightarrow> string list" where
  "LoadIgnorePatterns trimSpace file blockedPatterns =
     (case file of
        None \<Rightarrow> blockedPatterns @ defaultBlockedPatterns
      | Some scanned \<Rightarrow>
          blockedPatterns @ defaultBlockedPatterns
            @ filter (\<lambda>line. \<not> (line = [] \<or> strings_HasPrefix line ''#''))
                (map trimSpace scanned))"

text \<open>\<open>matched, _ := filepath.Match(pattern, name)\<close>: a malformed pattern matches nothing.\<close>

definition matched :: "string \<Rightarrow> string \<Rightarrow> bool" where
  "matched pattern name = (filepath_Match pattern name = Inr True)"

text \<open>
  The loop of \<open>IsPathBlocked\<close> over the global \<open>blockedPatterns\<close>, here the first argument.
\<close>

fun IsPathBlocked_loop :: "string list \<Rightarrow> string \<Rightarrow> string \<Rightarrow> bool" where
  "IsPathBlocked_loop [] path base = False"
| "IsPathBlocked_loop (pattern # patterns) path base =
     (if matched pattern path then True
      else if matched pattern base then True
      else if strings_Contains pattern (CHR ''*'') then
        (if matched pattern base then True
         else IsPathBlocked_loop patterns path base)
      else if base = pattern \<or> strings_HasSuffix path (CHR ''/'' # pattern) then True
      else IsPathBlocked_loop patterns path base)"

definition IsPathBlocked :: "string list \<Rightarrow> string \<Rightarrow> bool" where
  "IsPathBlocked blockedPatterns path =
     (let path = filepath_Clean path;
          base = filepath_Base path
      in IsPathBlocked_loop blockedPatterns path base)"

fun FilterBlockedPaths_loop :: "string list \<Rightarrow> string list \<Rightarrow> string list \<Rightarrow> string list" where
  "FilterBlockedPaths_loop blockedPatterns filtered [] = filtered"
| "FilterBlockedPaths_loop blockedPatterns filtered (p # paths) =
     FilterBlockedPaths_loop blockedPatterns
       (if \<not> IsPathBlocked blockedPatterns p then filtered @ [p] else filtered) paths"

definition FilterBlockedPaths :: "string list \<Rightarrow> string list \<Rightarrow> string list" where
  "FilterBlockedPaths blockedPatterns paths = FilterBlockedPaths_loop blockedPatterns [] paths"

text \<open>
  A pattern without glob metacharacters: none of the four bytes that \<open>filepath.Match\<close>
  reads as syntax (star, question mark, opening bracket, backslash).
\<close>

definition glob_free :: "string \<Rightarrow> bool" where
  "glob_free pattern =
     (CHR ''*'' \<notin> set pattern \<and> CHR ''?'' \<notin> set pattern \<and> CHR ''['' \<notin> set pattern
        \<and> CHR 0x5C \<notin> set pattern)"

section \<open>The world outside the program\<close>

text \<open>
  The file system maps an absolute, clean path to what is there; the root directory always
  exists.  The world also records, in order, the external commands that were started and
  the lines printed on the terminal.
\<close>

datatype node = FileNode string | DirNode

type_synonym filesystem = "string \<Rightarrow> node option"

record world =
  files :: filesystem
  spawned :: "(string \<times> string list) list"
  printed :: "string list"

text \<open>
  What \<open>cmd.CombinedOutput\<close> gives back for one external command: the combined output,
  the error of the run if any, and whether the context's deadline had passed when
  \<open>ctx.Err()\<close> is read.
\<close>

record process_result =
  combined_output :: string
  wait_error :: "string option"
  deadline_exceeded :: bool

text \<open>How \<open>os.WriteFile\<close> ends: it opens (creates, truncates), writes, closes.\<close>

datatype write_fault =
    WriteCompletes
  | OpenFails string
  | WriteFailsAfter nat string
  | CloseFails string

datatype json =
    JNull
  | JBool bool
  | JNumber real
  | JString string
  | JArray "json list"
  | JObject "(string \<times> json) list"

text \<open>
  Everything the program reads from its surroundings and from library functions that are
  not modelled in detail: the global \<open>blockedPatterns\<close>, the working directory (and whether
  \<open>os.Getwd\<close> fails), \<open>json.Unmarshal\<close> into a map, \<open>strings.ToLower\<close> and
  \<open>strings.TrimSpace\<close> (Unicode tables), what an external command returns in a given
  world, which \<open>mkdir\<close> and write operations the operating system refuses, the text of
  the error \<open>os.MkdirAll\<close> returns when a file stands at a path, and the value of
  \<open>int(v)\<close> for a \<open>float64\<close> that no \<open>int\<close> can hold (the language leaves it to the
  implementation).
\<close>

record env =
  blockedPatterns :: "string list"
  workdir :: string
  getwd_error :: "string option"
  json_Unmarshal :: "string \<Rightarrow> string + (string \<Rightarrow> json option)"
  strings_ToLower :: "string \<Rightarrow> string"
  strings_TrimSpace :: "string \<Rightarrow> string"
  run_process :: "world \<Rightarrow> string \<Rightarrow> string list \<Rightarrow> process_result"
  mkdir_error :: "string \<Rightarrow> string option"
  not_a_directory :: "string \<Rightarrow> string"
  write_fault :: "string \<Rightarrow> write_fault"
  int_of_large :: "real \<Rightarrow> int"

definition os_Getwd :: "env \<Rightarrow> string + string" where
  "os_Getwd e = (case getwd_error e of Some msg \<Rightarrow> Inl msg | None \<Rightarrow> Inr (workdir e))"

definition filepath_Abs :: "env \<Rightarrow> string \<Rightarrow> string + string" where
  "filepath_Abs e path =
     (if filepath_IsAbs path then Inr (filepath_Clean path)
      else (case os_Getwd e of
              Inl msg \<Rightarrow> Inl msg
            | Inr wd \<Rightarrow> Inr (filepath_Join wd path)))"

text \<open>How the operating system reads a path: a relative one from the working directory.\<close>

definition resolve :: "env \<Rightarrow> string \<Rightarrow> string" where
  "resolve e path =
     (if filepath_IsAbs path then filepath_Clean path
      else filepath_Clean (workdir e @ ''/'' @ path))"

definition lookup :: "filesystem \<Rightarrow> string \<Rightarrow> node option" where
  "lookup fs p = (if p = ''/'' then Some DirNode else fs p)"

text \<open>\<open>_, err := os.Stat(path); err == nil\<close>.\<close>

definition os_Stat_ok :: "env \<Rightarrow> filesystem \<Rightarrow> string \<Rightarrow> bool" where
  "os_Stat_ok e fs path = (lookup fs (resolve e path) \<noteq> None)"

text \<open>
  \<open>os.MkdirAll\<close>, on the elements of the resolved path (last one first): a directory that
  exists is success, a file in the way is an error (with the text the system gives it),
  otherwise the parent chain is made first and then the directory itself, unless the
  system refuses.  Directories made before a failure stay.
\<close>

definition abs_path :: "string list \<Rightarrow> string" where
  "abs_path elems = CHR ''/'' # strings_Join elems ''/''"

fun MkdirAll_elems :: "env \<Rightarrow> string list \<Rightarrow> filesystem \<Rightarrow> string option \<times> filesystem" where
  "MkdirAll_elems e [] fs = (None, fs)"
| "MkdirAll_elems e (d # parent) fs =
     (let p = abs_path (rev (d # parent)) in
      case lookup fs p of
        Some DirNode \<Rightarrow> (None, fs)
      | Some (FileNode c) \<Rightarrow> (Some (not_a_directory e p), fs)
      | None \<Rightarrow>
          (case MkdirAll_elems e parent fs of
             (Some err, fs1) \<Rightarrow> (Some err, fs1)
           | (None, fs1) \<Rightarrow>
               (case mkdir_error e p of
                  Some err \<Rightarrow> (Some err, fs1)
                | None \<Rightarrow> (None, fs1(p \<mapsto> DirNode)))))"

definition path_elems :: "string \<Rightarrow> string list" where
  "path_elems p = filter (\<lambda>x. x \<noteq> []) (strings_Split p (CHR ''/''))"

definition os_MkdirAll :: "env \<Rightarrow> string \<Rightarrow> filesystem \<Rightarrow> string option \<times> filesystem" where
  "os_MkdirAll e path fs = MkdirAll_elems e (rev (path_elems (resolve e path))) fs"

text \<open>
  \<open>os.WriteFile\<close>: opening fails on a directory, under a missing parent, or when the
  system refuses; once the file is open it exists, truncated, and holds what was
  written before a failure.
\<close>

definition os_WriteFile ::
  "env \<Rightarrow> string \<Rightarrow> string \<Rightarrow> filesystem \<Rightarrow> string option \<times> filesystem" where
  "os_WriteFile e name data fs =
     (let p = resolve e name in
      if lookup fs p = Some DirNode then (Some (''open '' @ name @ '': is a directory''), fs)
      else if lookup fs (filepath_Dir p) \<noteq> Some DirNode then
        (Some (''open '' @ name @ '': no such file or directory''), fs)
      else
        (case write_fault e p of
           OpenFails err \<Rightarrow> (Some err, fs)
         | WriteFailsAfter n err \<Rightarrow> (Some err, fs(p \<mapsto> FileNode (take n data)))
         | CloseFails err \<Rightarrow> (Some err, fs(p \<mapsto> FileNode data))
         | WriteCompletes \<Rightarrow> (None, fs(p \<mapsto> FileNode data))))"

section \<open>Tools (\<open>tools.go\<close>)\<close>

datatype tool_error =
    InvalidArguments string
  | GetwdFailed string
  | ResolveFailed string
  | PathTraversal string
  | PathRequired
  | PatternRequired
  | AccessDenied string
  | CommandTimedOut
  | CommandFailed string
  | UnknownTool string
  | OnlyMarkdown
  | ContentRequired
  | FileExists string
  | MkdirFailed string
  | WriteFailed string

text \<open>The text of each error (\<open>err.Error()\<close>).\<close>

fun error_text :: "tool_error \<Rightarrow> string" where
  "error_text (InvalidArguments m) = ''invalid arguments: '' @ m"
| "error_text (GetwdFailed m) = ''failed to get current directory: '' @ m"
| "error_text (ResolveFailed m) = ''failed to resolve path: '' @ m"
| "error_text (PathTraversal p) = ''path traversal not allowed: '' @ p"
| "error_text PathRequired = ''path is required''"
| "error_text PatternRequired = ''pattern is required''"
| "error_text (AccessDenied p) = ''access denied: '' @ p @ '' is in ignore list''"
| "error_text CommandTimedOut = ''command timed out''"
| "error_text (CommandFailed m) = m"
| "error_text (UnknownTool n) = ''unknown tool: '' @ n"
| "error_text OnlyMarkdown = ''only markdown files (.md) can be created''"
| "error_text ContentRequired = ''content is required''"
| "error_text (FileExists p) = ''file already exists: '' @ p"
| "error_text (MkdirFailed m) = ''failed to create directory: '' @ m"
| "error_text (WriteFailed m) = ''failed to write file: '' @ m"

definition validatePath :: "env \<Rightarrow> string \<Rightarrow> tool_error + string" where
  "validatePath e path =
     (let clean = filepath_Clean path in
      if strings_HasPrefix clean ''..'' \<or> filepath_IsAbs clean then
        (case filepath_Abs e ''.'' of
           Inl msg \<Rightarrow> Inl (GetwdFailed msg)
         | Inr cwd \<Rightarrow>
             (case filepath_Abs e clean of
                Inl msg \<Rightarrow> Inl (ResolveFailed msg)
              | Inr absolute \<Rightarrow>
                  if \<not> strings_HasPrefix absolute cwd then Inl (PathTraversal path)
                  else Inr clean))
      else Inr clean)"

definition getString :: "(string \<Rightarrow> json option) \<Rightarrow> string \<Rightarrow> string \<Rightarrow> string" where
  "getString args key defaultVal =
     (case args key of
        Some (JString v) \<Rightarrow> if v \<noteq> [] then v else defaultVal
      | _ \<Rightarrow> defaultVal)"

text \<open>
  \<open>int(v)\<close> of a \<open>float64\<close>, with \<open>int\<close> of 64 bits: the fraction is dropped (towards
  zero) when an \<open>int\<close> can hold the result; otherwise the conversion still succeeds and
  gives some \<open>int\<close>, which one is left to the implementation.
\<close>

definition float64_to_int :: "env \<Rightarrow> real \<Rightarrow> int" where
  "float64_to_int e v =
     (let t = (if 0 \<le> v then \<lfloor>v\<rfloor> else \<lceil>v\<rceil>)
      in if - (2 ^ 63) \<le> t \<and> t < 2 ^ 63 then t
         else (int_of_large e v + 2 ^ 63) mod 2 ^ 64 - 2 ^ 63)"

definition getInt :: "env \<Rightarrow> (string \<Rightarrow> json option) \<Rightarrow> string \<Rightarrow> int \<Rightarrow> int" where
  "getInt e args key defaultVal =
     (case args key of
        Some (JNumber v) \<Rightarrow> float64_to_int e v
      | _ \<Rightarrow> defaultVal)"

definition getBool :: "(string \<Rightarrow> json option) \<Rightarrow> string \<Rightarrow> bool \<Rightarrow> bool" where
  "getBool args key defaultVal =
     (case args key of
        Some (JBool v) \<Rightarrow> v
      | _ \<Rightarrow> defaultVal)"

text \<open>\<open>fmt.Sprintf("%d", n)\<close>.\<close>

function nat_digits :: "nat \<Rightarrow> string" where
  "nat_digits n =
     (if n < 10 then [char_of (48 + n)]
      else nat_digits (n div 10) @ [char_of (48 + n mod 10)])"
  by pat_completeness auto
termination
  by (relation "measure id") auto

declare nat_digits.simps [simp del]

definition Sprintf_d :: "int \<Rightarrow> string" where
  "Sprintf_d n = (if n < 0 then CHR ''-'' # nat_digits (nat (- n)) else nat_digits (nat n))"

definition maxLen :: nat where
  "maxLen = 50000"

definition truncation_marker :: string where
  "truncation_marker = CHR 0x0A # ''... (output truncated)''"

text \<open>
  \<open>runCommand\<close>, from what the process returned to what the tool returns.  The command
  is started under the context that \<open>ExecuteTool\<close> made for the call, whose deadline is 30
  seconds away when the tool begins.
\<close>

definition runCommand_result :: "process_result \<Rightarrow> tool_error + string" where
  "runCommand_result pr =
     (let result = combined_output pr;
          result = (if maxLen < length result then take maxLen result @ truncation_marker
                    else result)
      in case wait_error pr of
           Some err \<Rightarrow>
             if deadline_exceeded pr then Inl CommandTimedOut
             else if result \<noteq> [] then Inr result
             else Inl (CommandFailed err)
         | None \<Rightarrow> Inr result)"

definition runCommand ::
  "env \<Rightarrow> string \<Rightarrow> string list \<Rightarrow> world \<Rightarrow> (tool_error + string) \<times> world" where
  "runCommand e name args w =
     (runCommand_result (run_process e w name args),
      w\<lparr>spawned := spawned w @ [(name, args)]\<rparr>)"

definition executeLs ::
  "env \<Rightarrow> (string \<Rightarrow> json option) \<Rightarrow> world \<Rightarrow> (tool_error + string) \<times> world" where
  "executeLs e args w =
     (let path = getString args ''path'' ''.'' in runCommand e ''ls'' [''-la'', path] w)"

definition executeCat ::
  "env \<Rightarrow> (string \<Rightarrow> json option) \<Rightarrow> world \<Rightarrow> (tool_error + string) \<times> world" where
  "executeCat e args w =
     (let path = getString args ''path'' [] in
      if path = [] then (Inl PathRequired, w)
      else if IsPathBlocked (blockedPatterns e) path then (Inl (AccessDenied path), w)
      else runCommand e ''cat'' [path] w)"

definition executeHead ::
  "env \<Rightarrow> (string \<Rightarrow> json option) \<Rightarrow> world \<Rightarrow> (tool_error + string) \<times> world" where
  "executeHead e args w =
     (let path = getString args ''path'' [] in
      if path = [] then (Inl PathRequired, w)
      else if IsPathBlocked (blockedPatterns e) path then (Inl (AccessDenied path), w)
      else (let lines = getInt e args ''lines'' 50
            in runCommand e ''head'' [''-n'', Sprintf_d lines, path] w))"

text \<open>The loop of \<open>executeGrep\<close> over the lines of the output.\<close>

fun grep_filter :: "string list \<Rightarrow> string list \<Rightarrow> string list \<Rightarrow> string list" where
  "grep_filter blocked filtered [] = filtered"
| "grep_filter blocked filtered (line # lines) =
     (let idx = strings_Index line (CHR '':'') in
      if 0 < idx \<and> IsPathBlocked blocked (take (nat idx) line)
      then grep_filter blocked filtered lines
      else grep_filter blocked (filtered @ [line]) lines)"

definition executeGrep ::
  "env \<Rightarrow> (string \<Rightarrow> json option) \<Rightarrow> world \<Rightarrow> (tool_error + string) \<times> world" where
  "executeGrep e args w =
     (let pattern = getString args ''pattern'' [] in
      if pattern = [] then (Inl PatternRequired, w)
      else
        (let path = getString args ''path'' ''.'';
             recursive = getBool args ''recursive'' True;
             grepArgs = [''-n'', ''--color=never''];
             grepArgs = (if recursive then grepArgs @ [''-r''] else grepArgs);
             grepArgs = grepArgs @ [''--'', pattern, path]
         in case runCommand e ''grep'' grepArgs w of
              (Inl err, w') \<Rightarrow> (Inl err, w')
            | (Inr result, w') \<Rightarrow>
                (Inr (strings_Join
                        (grep_filter (blockedPatterns e) [] (strings_Split result (CHR 0x0A)))
                        [CHR 0x0A]), w')))"

fun find_filter :: "env \<Rightarrow> string list \<Rightarrow> string list \<Rightarrow> string list" where
  "find_filter e filtered [] = filtered"
| "find_filter e filtered (line # lines) =
     (let line = strings_TrimSpace e line in
      if line = [] \<or> IsPathBlocked (blockedPatterns e) line
      then find_filter e filtered lines
      else find_filter e (filtered @ [line]) lines)"

definition executeFind ::
  "env \<Rightarrow> (string \<Rightarrow> json option) \<Rightarrow> world \<Rightarrow> (tool_error + string) \<times> world" where
  "executeFind e args w =
     (let pattern = getString args ''pattern'' [] in
      if pattern = [] then (Inl PatternRequired, w)
      else
        (let path = getString args ''path'' ''.''
         in case runCommand e ''find'' [path, ''-name'', pattern, ''-type'', ''f''] w of
              (Inl err, w') \<Rightarrow> (Inl err, w')
            | (Inr result, w') \<Rightarrow>
                (Inr (strings_Join (find_filter e [] (strings_Split result (CHR 0x0A)))
                        [CHR 0x0A]), w')))"

text \<open>
  The two commands of \<open>executeTree\<close> run under the one context \<open>ctx\<close> of the call.  When
  the first ended on the deadline, that context is done for good: \<open>cmd.Start\<close> of the
  second returns the error of the context and starts nothing, \<open>ctx.Err()\<close> is
  \<open>DeadlineExceeded\<close> again, and \<open>runCommand\<close> returns \<open>command timed out\<close> once more.
\<close>

definition executeTree ::
  "env \<Rightarrow> (string \<Rightarrow> json option) \<Rightarrow> world \<Rightarrow> (tool_error + string) \<times> world" where
  "executeTree e args w =
     (let path = getString args ''path'' ''.'';
          depth = getInt e args ''depth'' 3
      in case runCommand e ''tree'' [''-L'', Sprintf_d depth, path] w of
           (Inl err, w') \<Rightarrow>
             if err = CommandTimedOut then (Inl CommandTimedOut, w')
             else runCommand e ''find'' [path, ''-maxdepth'', Sprintf_d depth, ''-print''] w'
         | (Inr result, w') \<Rightarrow> (Inr result, w'))"

text \<open>
  \<open>strings.ReplaceAll(content, "\r\n", "\n")\<close> and \<open>strings.ReplaceAll(content, "\r", "\n")\<close>.
\<close>

fun replace_crlf :: "string \<Rightarrow> string" where
  "replace_crlf [] = []"
| "replace_crlf [c] = [c]"
| "replace_crlf (c # d # cs) =
     (if c = CHR 0x0D \<and> d = CHR 0x0A then CHR 0x0A # replace_crlf cs
      else c # replace_crlf (d # cs))"

definition replace_cr :: "string \<Rightarrow> string" where
  "replace_cr content = map (\<lambda>c. if c = CHR 0x0D then CHR 0x0A else c) content"

text \<open>The loop of \<open>formatMarkdown\<close> over the lines.\<close>

fun formatMarkdown_loop :: "string list \<Rightarrow> nat \<Rightarrow> string list \<Rightarrow> string list" where
  "formatMarkdown_loop formatted blankLineCount [] = formatted"
| "formatMarkdown_loop formatted blankLineCount (line # lines) =
     (let trimmed = strings_TrimRight line [CHR '' '', CHR 0x09] in
      if trimmed = [] then
        (let blankLineCount = blankLineCount + 1 in
         formatMarkdown_loop
           (if blankLineCount \<le> 2 then formatted @ [[]] else formatted) blankLineCount lines)
      else formatMarkdown_loop (formatted @ [trimmed]) 0 lines)"

definition formatMarkdown :: "string \<Rightarrow> string" where
  "formatMarkdown content =
     (let content = replace_crlf content;
          content = replace_cr content;
          lines = strings_Split content (CHR 0x0A);
          formatted = formatMarkdown_loop [] 0 lines;
          result = strings_Join formatted [CHR 0x0A]
      in strings_TrimRight result [CHR 0x0A] @ [CHR 0x0A])"

definition executeWriteMarkdown ::
  "env \<Rightarrow> (string \<Rightarrow> json option) \<Rightarrow> world \<Rightarrow> (tool_error + string) \<times> world" where
  "executeWriteMarkdown e args w =
     (let path = getString args ''path'' [] in
      if path = [] then (Inl PathRequired, w)
      else if \<not> strings_HasSuffix (strings_ToLower e path) ''.md'' then (Inl OnlyMarkdown, w)
      else
        (let content = getString args ''content'' [] in
         if content = [] then (Inl ContentRequired, w)
         else
           (let formattedContent = formatMarkdown content in
            case validatePath e path of
              Inl err \<Rightarrow> (Inl err, w)
            | Inr clean \<Rightarrow>
                if os_Stat_ok e (files w) clean then (Inl (FileExists path), w)
                else
                  (let dir = filepath_Dir clean in
                   case os_MkdirAll e dir (files w) of
                     (Some err, fs1) \<Rightarrow> (Inl (MkdirFailed err), w\<lparr>files := fs1\<rparr>)
                   | (None, fs1) \<Rightarrow>
                       (case os_WriteFile e clean formattedContent fs1 of
                          (Some err, fs2) \<Rightarrow> (Inl (WriteFailed err), w\<lparr>files := fs2\<rparr>)
                        | (None, fs2) \<Rightarrow>
                            (Inr (''Successfully created markdown file: '' @ path),
                             w\<lparr>files := fs2\<rparr>))))))"

text \<open>\<open>PrintError(msg)\<close> of \<open>ui.go\<close>.\<close>

definition PrintError :: "string \<Rightarrow> world \<Rightarrow> world" where
  "PrintError msg w = w\<lparr>printed := printed w @ [''Error: '' @ msg @ [CHR 0x0A]]\<rparr>"

definition ExecuteTool :: "env \<Rightarrow> string \<Rightarrow> string \<Rightarrow> world \<Rightarrow> (tool_error + string) \<times> world" where
  "ExecuteTool e name argsJSON w =
     (case json_Unmarshal e argsJSON of
        Inl err \<Rightarrow>
          (Inl (InvalidArguments err), PrintError (''Failed to parse tool arguments: '' @ err) w)
      | Inr args \<Rightarrow>
          (case (case args ''path'' of
                   Some (JString path) \<Rightarrow> validatePath e path
                 | _ \<Rightarrow> Inr []) of
             Inl err \<Rightarrow> (Inl err, w)
           | Inr checked \<Rightarrow>
               if name = ''ls'' then executeLs e args w
               else if name = ''cat'' then executeCat e args w
               else if name = ''head'' then executeHead e args w
               else if name = ''grep'' then executeGrep e args w
               else if name = ''find'' then executeFind e args w
               else if name = ''tree'' then executeTree e args w
               else if name = ''write_markdown'' then executeWriteMarkdown e args w
               else (Inl (UnknownTool name), w)))"

section \<open>The conversation (\<open>client.go\<close>)\<close>

record ToolCall =
  ToolCall_ID :: string
  ToolCall_Type :: string
  Function_Name :: string
  Function_Arguments :: string

record Message =
  Role :: string
  Content :: string
  ToolCalls :: "ToolCall list"
  ToolCallID :: string
  Reasoning :: string

record Choice =
  Choice_Message :: Message
  FinishReason :: string

record ChatResponse =
  ChatResponse_ID :: string
  Choices :: "Choice list"

record Config =
  APIKey :: string
  BaseURL :: string
  Model :: string

record Client =
  config :: Config
  http_Timeout_seconds :: nat
  messages :: "Message list"

text \<open>
  The instruction message that opens every conversation, byte for byte.
\<close>

definition systemPrompt :: string where
  \<open>systemPrompt = concat
     [''You are a helpful assistant that answers questions about codebases.'' @ [CHR 0x0A],
      ''You have access to tools that let you explore the file system: ls, cat, head, grep, find, and tree.'' @ [CHR 0x0A],
      ''You can also create markdown documentation files using the write_markdown tool.'' @ [CHR 0x0A],
      [CHR 0x0A],
      ''IMPORTANT: You MUST use the tool calling feature to invoke tools. Do NOT write JSON or function calls in your response text. Use the tool_calls mechanism provided by the API.'' @ [CHR 0x0A],
      [CHR 0x0A],
      ''When answering questions:'' @ [CHR 0x0A],
      ''1. Use grep to search for specific patterns or keywords in code'' @ [CHR 0x0A],
      ''2. Use find to locate files by name pattern'' @ [CHR 0x0A],
      ''3. Use cat or head to read file contents'' @ [CHR 0x0A],
      ''4. Use ls or tree to explore directory structure'' @ [CHR 0x0A],
      ''5. After gathering information, provide a clear, concise answer'' @ [CHR 0x0A],
      ''6. Use write_markdown to create documentation files when requested (prefer current directory)'' @ [CHR 0x0A],
      [CHR 0x0A],
      ''Make a step by step plan of what tools you will use and why before starting tool executions.'' @ [CHR 0x0A],
      [CHR 0x0A],
      ''## Example 1: Answering a Question'' @ [CHR 0x0A],
      [CHR 0x0A],
      ''**User question:** "Where is the database connection configured?"'' @ [CHR 0x0A],
      [CHR 0x0A],
      ''**Reasoning:** The user wants to find database configuration. This could be in config files, environment handling code, or database initialization. I should search for database-related keywords first, then read the relevant files.'' @ [CHR 0x0A],
      [CHR 0x0A],
      ''**Plan:**'' @ [CHR 0x0A],
      ''1. Use grep to search for "database" or "db" patterns to find relevant files'' @ [CHR 0x0A],
      ''2. Use cat to read the most promising file(s)'' @ [CHR 0x0A],
      ''3. Summarize the findings'' @ [CHR 0x0A],
      [CHR 0x0A],
      ''**Tool calls:**'' @ [CHR 0x0A],
      ''1. grep({"pattern": "database|db.*connect", "path": ".", "recursive": true})'' @ [CHR 0x0A],
      ''   '' @ [CHR 0xE2, CHR 0x86, CHR 0x92] @ '' Found matches in config.go:15 and db/client.go:23'' @ [CHR 0x0A],
      [CHR 0x0A],
      ''2. cat({"path": "config.go"})'' @ [CHR 0x0A],
      ''   '' @ [CHR 0xE2, CHR 0x86, CHR 0x92] @ '' Shows Config struct with DatabaseURL field and LoadConfig function reading from environment'' @ [CHR 0x0A],
      [CHR 0x0A],
      ''**Answer:** The database connection is configured in config.go. The Config struct (line 12) has a DatabaseURL field that gets populated from the DATABASE_URL environment variable in the LoadConfig function (line 25). The actual connection is established in db/client.go using this config value.'' @ [CHR 0x0A],
      [CHR 0x0A],
      ''## Example 2: Creating Documentation'' @ [CHR 0x0A],
      [CHR 0x0A],
      ''**User request:** "Review the authentication code and create a README documenting how it works"'' @ [CHR 0x0A],
      [CHR 0x0A],
      ''**Plan:**'' @ [CHR 0x0A],
      ''1. Use find or grep to locate authentication-related files'' @ [CHR 0x0A],
      ''2. Use cat to read the authentication implementation'' @ [CHR 0x0A],
      ''3. Use write_markdown to create a README in the current directory'' @ [CHR 0x0A],
      [CHR 0x0A],
      ''**Tool calls:**'' @ [CHR 0x0A],
      ''1. grep({"pattern": "auth", "path": ".", "recursive": true})'' @ [CHR 0x0A],
      ''   '' @ [CHR 0xE2, CHR 0x86, CHR 0x92] @ '' Found auth.go, middleware.go'' @ [CHR 0x0A],
      ''2. cat({"path": "auth.go"})'' @ [CHR 0x0A],
      ''   '' @ [CHR 0xE2, CHR 0x86, CHR 0x92] @ '' Read authentication logic'' @ [CHR 0x0A],
      ''3. write_markdown({"path": "AUTH_GUIDE.md", "content": "# Authentication'' @ [CHR 0x5C, CHR 0x5C] @ ''n'' @ [CHR 0x5C, CHR 0x5C] @ ''nThis system uses JWT..."})'' @ [CHR 0x0A],
      ''   '' @ [CHR 0xE2, CHR 0x86, CHR 0x92] @ '' Created documentation file in current directory'' @ [CHR 0x0A],
      [CHR 0x0A],
      ''**IMPORTANT for write_markdown:**'' @ [CHR 0x0A],
      ''- DEFAULT: Use just a filename to write to current directory (e.g., "README.md", "API_DOCS.md")'' @ [CHR 0x0A],
      ''- ONLY use a directory path if user explicitly asks for it (e.g., "put it in docs/")'' @ [CHR 0x0A],
      ''- Directory must already exist - tool cannot create directories'' @ [CHR 0x0A],
      [CHR 0x0A],
      ''---'' @ [CHR 0x0A],
      [CHR 0x0A],
      ''Always use the tools to verify your answers - don'' @ [CHR 0x27] @ ''t guess about code you haven'' @ [CHR 0x27] @ ''t read.'' @ [CHR 0x0A],
      ''When you have enough information, respond with your final answer in plain text.'']\<close>

definition NewClient :: "Config \<Rightarrow> Client" where
  "NewClient cfg =
     \<lparr>config = cfg,
      http_Timeout_seconds = 120,
      messages =
        [\<lparr>Role = ''system'', Content = systemPrompt, ToolCalls = [], ToolCallID = [],
          Reasoning = []\<rparr>]\<rparr>"

text \<open>
  The inner loop of \<open>Chat\<close>: the tool calls of one assistant message, in the order given.
  An executor error becomes the result text; the callback, when there is one, sees the
  call and its result; a tool message with the call's id is appended to the history.
\<close>

fun run_tool_calls ::
  "env \<Rightarrow> (string \<Rightarrow> string \<Rightarrow> string \<Rightarrow> world \<Rightarrow> world) option \<Rightarrow> ToolCall list
     \<Rightarrow> Message list \<Rightarrow> world \<Rightarrow> Message list \<times> world" where
  "run_tool_calls e onToolCall [] msgs w = (msgs, w)"
| "run_tool_calls e onToolCall (tc # tcs) msgs w =
     (case ExecuteTool e (Function_Name tc) (Function_Arguments tc) w of
        (r, w1) \<Rightarrow>
          (let result = (case r of Inl err \<Rightarrow> ''Error: '' @ error_text err | Inr out \<Rightarrow> out);
               w2 = (case onToolCall of
                       None \<Rightarrow> w1
                     | Some f \<Rightarrow> f (Function_Name tc) (Function_Arguments tc) result w1)
           in run_tool_calls e onToolCall tcs
                (msgs @ [\<lparr>Role = ''tool'', Content = result, ToolCalls = [],
                          ToolCallID = ToolCall_ID tc, Reasoning = []\<rparr>]) w2))"

datatype chat_error = RequestError string | NoResponse

text \<open>
  The outer loop of \<open>Chat\<close>.  What \<open>sendRequest\<close> returns is given from outside, one reply
  per request, in order: an error text or a parsed response.  The loop may go on for as
  long as the model keeps asking for tools; \<open>None\<close> says that the replies given ran out
  before the model gave a final answer.
\<close>

fun Chat_loop ::
  "env \<Rightarrow> (string \<Rightarrow> string \<Rightarrow> string \<Rightarrow> world \<Rightarrow> world) option
     \<Rightarrow> (string + ChatResponse) list \<Rightarrow> Client \<Rightarrow> world
     \<Rightarrow> ((chat_error + string) \<times> Client \<times> world) option" where
  "Chat_loop e onToolCall [] c w = None"
| "Chat_loop e onToolCall (reply # replies) c w =
     (case reply of
        Inl err \<Rightarrow> Some (Inl (RequestError err), c, w)
      | Inr resp \<Rightarrow>
          (case Choices resp of
             [] \<Rightarrow> Some (Inl NoResponse, c, w)
           | choice # others \<Rightarrow>
               (let assistantMsg = Choice_Message choice;
                    c1 = c\<lparr>messages := messages c @ [assistantMsg]\<rparr>
                in if ToolCalls assistantMsg \<noteq> [] then
                     (case run_tool_calls e onToolCall (ToolCalls assistantMsg) (messages c1) w of
                        (msgs, w') \<Rightarrow> Chat_loop e onToolCall replies (c1\<lparr>messages := msgs\<rparr>) w')
                   else
                     (let response = Content assistantMsg;
                          response = (if response = [] \<and> Reasoning assistantMsg \<noteq> []
                                      then Reasoning assistantMsg else response)
                      in Some (Inr response, c1, w)))))"

definition user_message :: "string \<Rightarrow> Message" where
  "user_message userMessage =
     \<lparr>Role = ''user'', Content = userMessage, ToolCalls = [], ToolCallID = [], Reasoning = []\<rparr>"

definition Chat ::
  "env \<Rightarrow> (string + ChatResponse) list \<Rightarrow> Client \<Rightarrow> string
     \<Rightarrow> (string \<Rightarrow> string \<Rightarrow> string \<Rightarrow> world \<Rightarrow> world) option \<Rightarrow> world
     \<Rightarrow> ((chat_error + string) \<times> Client \<times> world) option" where
  "Chat e replies c userMessage onToolCall w =
     Chat_loop e onToolCall replies
       (c\<lparr>messages := messages c @ [user_message userMessage]\<rparr>) w"

text \<open>
  \<open>Reset\<close>: \<open>c.messages = c.messages[:1]\<close>.  On an empty history the slice expression
  reaches past the length of the slice, which the model leaves undefined (\<open>None\<close>).
\<close>

definition Reset :: "Client \<Rightarrow> Client option" where
  "Reset c = (if messages c = [] then None else Some (c\<lparr>messages := take 1 (messages c)\<rparr>))"

text \<open>
  The clients a program can hold: the one \<open>NewClient\<close> makes, and what \<open>Chat\<close> and
  \<open>Reset\<close> leave behind, whatever the model answers and the tools do.
\<close>

inductive reachable :: "Client \<Rightarrow> bool" where
  new: "reachable (NewClient cfg)"
| chat: "reachable c \<Longrightarrow> Chat e replies c userMessage onToolCall w = Some (r, c', w')
    \<Longrightarrow> reachable c'"
| reset: "reachable c \<Longrightarrow> Reset c = Some c' \<Longrightarrow> reachable c'"

section \<open>A concrete environment\<close>

text \<open>
  One environment to run the program in: the default patterns, the working directory
  \<open>/home/user/proj\<close>, library functions on ASCII text, a decoder that knows a few argument
  texts, a \<open>grep\<close> that finds one line, and an operating system that refuses nothing.
\<close>

definition ascii_lower :: "string \<Rightarrow> string" where
  "ascii_lower s =
     map (\<lambda>c. if 65 \<le> byte_of c \<and> byte_of c \<le> 90 then char_of (byte_of c + 32) else c) s"

definition ascii_space :: "char \<Rightarrow> bool" where
  "ascii_space c = (c \<in> set [CHR '' '', CHR 0x09, CHR 0x0A, CHR 0x0B, CHR 0x0C, CHR 0x0D])"

definition ascii_trim :: "string \<Rightarrow> string" where
  "ascii_trim s = rev (dropWhile ascii_space (rev (dropWhile ascii_space s)))"

definition grep_env_json :: string where
  \<open>grep_env_json = ''{"pattern": "KEY", "path": ".env"}''\<close>

definition write_notes_json :: string where
  \<open>write_notes_json = ''{"path": "notes.md", "content": "# Notes"}''\<close>

definition example_args :: "string \<Rightarrow> string + (string \<Rightarrow> json option)" where
  "example_args text =
     (if text = grep_env_json then
        Inr [''pattern'' \<mapsto> JString ''KEY'', ''path'' \<mapsto> JString ''.env'']
      else if text = write_notes_json then
        Inr [''path'' \<mapsto> JString ''notes.md'', ''content'' \<mapsto> JString ''# Notes'']
      else Inl ''invalid character'')"

definition example_process :: "world \<Rightarrow> string \<Rightarrow> string list \<Rightarrow> process_result" where
  "example_process w name args =
     (if name = ''grep'' then
        \<lparr>combined_output = ''1:API_KEY=secret'' @ [CHR 0x0A], wait_error = None,
         deadline_exceeded = False\<rparr>
      else \<lparr>combined_output = [], wait_error = Some ''exit status 1'',
            deadline_exceeded = False\<rparr>)"

definition example_env :: env where
  "example_env =
     \<lparr>blockedPatterns = defaultBlockedPatterns,
      workdir = ''/home/user/proj'',
      getwd_error = None,
      json_Unmarshal = example_args,
      strings_ToLower = ascii_lower,
      strings_TrimSpace = ascii_trim,
      run_process = example_process,
      mkdir_error = (\<lambda>p. None),
      not_a_directory = (\<lambda>p. ''mkdir '' @ p @ '': not a directory''),
      write_fault = (\<lambda>p. WriteCompletes),
      int_of_large = (\<lambda>v. - (2 ^ 63))\<rparr>"

definition example_world :: world where
  "example_world =
     \<lparr>files = [''/home/user'' \<mapsto> DirNode, ''/home/user/proj'' \<mapsto> DirNode, ''/home'' \<mapsto> DirNode,
               ''/home/user/proj/old.md'' \<mapsto> FileNode ''kept''],
      spawned = [],
      printed = []\<rparr>"

lemma strings_Split_nonempty: "strings_Split s sep \<noteq> []"
  by (induction s) (auto split: list.splits)

section \<open>Filtering a list of paths\<close>

lemma FilterBlockedPaths_loop_filter:
  "FilterBlockedPaths_loop pats acc ps = acc @ filter (\<lambda>p. \<not> IsPathBlocked pats p) ps"
  by (induction ps arbitrary: acc) auto

text \<open>
  Claim C9.  Whatever the blocked patterns are, filtering a list of paths a second time
  changes nothing, the entries that survive stand in the order they had in the input
  (the result is a subsequence of the input), and they are exactly the entries that are
  not blocked.
\<close>

theorem FilterBlockedPaths_idempotent_ordered:
  "FilterBlockedPaths pats (FilterBlockedPaths pats l) = FilterBlockedPaths pats l
   \<and> subseq (FilterBlockedPaths pats l) l
   \<and> FilterBlockedPaths pats l = filter (\<lambda>p. \<not> IsPathBlocked pats p) l"
proof -
  let ?keep = "\<lambda>p. \<not> IsPathBlocked pats p"
  have loop: "FilterBlockedPaths pats xs = filter ?keep xs" for xs
    unfolding FilterBlockedPaths_def by (simp add: FilterBlockedPaths_loop_filter)
  have again: "FilterBlockedPaths pats (FilterBlockedPaths pats l) = FilterBlockedPaths pats l"
    unfolding loop by simp
  have order: "subseq (FilterBlockedPaths pats l) l"
    unfolding loop by (rule subseq_filter_left)
  from again order loop[of l] show ?thesis by (intro conjI)
qed

theorem FilterBlockedPaths_idempotent_ordered_witness:
  "FilterBlockedPaths defaultBlockedPatterns
       [''main.go'', ''.env'', ''config.yaml'', ''secrets.json'', ''README.md'', ''private.key'']
     = [''main.go'', ''config.yaml'', ''README.md'']
   \<and> FilterBlockedPaths defaultBlockedPatterns [''main.go'', ''config.yaml'', ''README.md'']
     = [''main.go'', ''config.yaml'', ''README.md'']
   \<and> subseq [''main.go'', ''config.yaml'', ''README.md'']
       [''main.go'', ''.env'', ''config.yaml'', ''secrets.json'', ''README.md'', ''private.key'']"
proof -
  let ?input =
    "[''main.go'', ''.env'', ''config.yaml'', ''secrets.json'', ''README.md'', ''private.key'']"
  have run: "FilterBlockedPaths defaultBlockedPatterns ?input
      = [''main.go'', ''config.yaml'', ''README.md'']"
    by code_simp
  note inst = FilterBlockedPaths_idempotent_ordered[of defaultBlockedPatterns ?input]
  have again: "FilterBlockedPaths defaultBlockedPatterns [''main.go'', ''config.yaml'', ''README.md'']
      = [''main.go'', ''config.yaml'', ''README.md'']"
    using inst[THEN conjunct1] unfolding run .
  have order: "subseq [''main.go'', ''config.yaml'', ''README.md''] ?input"
    using inst[THEN conjunct2, THEN conjunct1] unfolding run .
  show ?thesis using run again order by (intro conjI)
qed

section \<open>Patterns without glob metacharacters\<close>

lemma scan_body_plain:
  "CHR ''*'' \<notin> set p \<Longrightarrow> CHR 0x5C \<notin> set p \<Longrightarrow> scan_body b p = (p, [])"
  by (induction b p rule: scan_body.induct) auto

lemma scanChunk_glob_free:
  "glob_free pattern \<Longrightarrow> pattern \<noteq> [] \<Longrightarrow> scanChunk pattern = (False, pattern, [])"
  by (cases pattern) (auto simp: scanChunk_def glob_free_def scan_body_plain)

lemma matchChunk_loop_glob_free:
  "glob_free chunk \<Longrightarrow>
   matchChunk_loop failed chunk s =
     Inr (if \<not> failed \<and> prefix chunk s then Some (drop (length chunk) s) else None)"
proof (induction chunk arbitrary: failed s)
  case Nil
  then show ?case by simp
next
  case (Cons c chunk)
  then have gf: "glob_free chunk"
    and c: "c \<noteq> CHR ''*''" "c \<noteq> CHR ''?''" "c \<noteq> CHR ''[''" "c \<noteq> CHR 0x5C"
    by (auto simp: glob_free_def)
  show ?case
    using c by (cases s) (auto simp: matchChunk_loop.simps(2) Cons.IH[OF gf] Let_def)
qed

lemma filepath_Match_glob_free:
  assumes "glob_free pattern"
  shows "filepath_Match pattern name = Inr (name = pattern)"
proof (cases "pattern = []")
  case True
  then show ?thesis by (auto simp: filepath_Match.simps)
next
  case False
  have sc: "scanChunk pattern = (False, pattern, [])"
    using assms False by (rule scanChunk_glob_free)
  have mc: "matchChunk pattern name =
      Inr (if prefix pattern name then Some (drop (length pattern) name) else None)"
    using matchChunk_loop_glob_free[OF assms, of False name] by (simp add: matchChunk_def)
  show ?thesis
  proof (cases "prefix pattern name")
    case True
    then obtain zs where "name = pattern @ zs" by (auto simp: prefix_def)
    then show ?thesis using False sc mc
      by (subst filepath_Match.simps)
         (auto simp: filepath_Match.simps[of "[]"] check_rest.simps[of "[]"])
  next
    case F: False
    then have "name \<noteq> pattern" by auto
    then show ?thesis using False sc mc F
      by (subst filepath_Match.simps) (auto simp: check_rest.simps[of "[]"])
  qed
qed

lemma matched_glob_free: "glob_free pattern \<Longrightarrow> matched pattern name \<longleftrightarrow> name = pattern"
  by (simp add: matched_def filepath_Match_glob_free)

lemma IsPathBlocked_loop_glob_free:
  "glob_free pat \<Longrightarrow>
   IsPathBlocked_loop (pat # pats) path base \<longleftrightarrow>
     (path = pat \<or> base = pat \<or> strings_HasSuffix path (CHR ''/'' # pat))
       \<or> IsPathBlocked_loop pats path base"
  by (auto simp: matched_glob_free strings_Contains_def glob_free_def)

lemma IsPathBlocked_loop_any:
  "IsPathBlocked_loop pats path base \<longleftrightarrow> (\<exists>pat \<in> set pats. IsPathBlocked_loop [pat] path base)"
  by (induction pats) auto

text \<open>A path is blocked when one of the patterns blocks it, wherever it stands.\<close>

lemma IsPathBlocked_any_pattern:
  "IsPathBlocked pats p \<longleftrightarrow> (\<exists>pat \<in> set pats. IsPathBlocked [pat] p)"
  unfolding IsPathBlocked_def Let_def by (rule IsPathBlocked_loop_any)

text \<open>
  Claim C2, as amended.  A pattern without glob metacharacters blocks exactly the paths
  whose cleaned form is the pattern itself, whose basename is the pattern, or whose
  cleaned form ends with a separator followed by the pattern; this holds for the pattern
  alone and as one more pattern before any others.  With the default patterns,
  \<open>id_rsa\<close> and \<open>foo/id_rsa\<close> are blocked and \<open>id_rsa.pub\<close> is not.
\<close>

theorem IsPathBlocked_glob_free_pattern:
  assumes "glob_free pat"
  shows "(IsPathBlocked (pat # pats) p \<longleftrightarrow>
            (filepath_Clean p = pat
               \<or> filepath_Base (filepath_Clean p) = pat
               \<or> strings_HasSuffix (filepath_Clean p) (CHR ''/'' # pat))
            \<or> IsPathBlocked pats p)
         \<and> IsPathBlocked defaultBlockedPatterns ''id_rsa''
         \<and> IsPathBlocked defaultBlockedPatterns ''foo/id_rsa''
         \<and> \<not> IsPathBlocked defaultBlockedPatterns ''id_rsa.pub''"
proof -
  have general: "IsPathBlocked (pat # pats) p \<longleftrightarrow>
            (filepath_Clean p = pat
               \<or> filepath_Base (filepath_Clean p) = pat
               \<or> strings_HasSuffix (filepath_Clean p) (CHR ''/'' # pat))
            \<or> IsPathBlocked pats p"
    unfolding IsPathBlocked_def Let_def by (rule IsPathBlocked_loop_glob_free[OF assms])
  have a: "IsPathBlocked defaultBlockedPatterns ''id_rsa''" by code_simp
  have b: "IsPathBlocked defaultBlockedPatterns ''foo/id_rsa''" by code_simp
  have c: "\<not> IsPathBlocked defaultBlockedPatterns ''id_rsa.pub''" by code_simp
  show ?thesis using general a b c by (intro conjI)
qed

theorem IsPathBlocked_glob_free_pattern_witness:
  "glob_free ''id_rsa''
   \<and> IsPathBlocked [''id_rsa''] ''foo/id_rsa''
   \<and> \<not> IsPathBlocked [''id_rsa''] ''id_rsa.pub''"
proof -
  have gf: "glob_free ''id_rsa''" by (simp add: glob_free_def)
  have c1: "filepath_Clean ''foo/id_rsa'' = ''foo/id_rsa''" by code_simp
  have b1: "filepath_Base ''foo/id_rsa'' = ''id_rsa''" by code_simp
  have c2: "filepath_Clean ''id_rsa.pub'' = ''id_rsa.pub''" by code_simp
  have b2: "filepath_Base ''id_rsa.pub'' = ''id_rsa.pub''" by code_simp
  have s2: "\<not> strings_HasSuffix ''id_rsa.pub'' ''/id_rsa''" by code_simp
  have e: "\<not> IsPathBlocked [] q" for q by (simp add: IsPathBlocked_def)
  have "IsPathBlocked [''id_rsa''] ''foo/id_rsa''"
    using IsPathBlocked_glob_free_pattern[OF gf, of "[]" "''foo/id_rsa''", THEN conjunct1]
    unfolding c1 b1 by simp
  moreover have "\<not> IsPathBlocked [''id_rsa''] ''id_rsa.pub''"
    using IsPathBlocked_glob_free_pattern[OF gf, of "[]" "''id_rsa.pub''", THEN conjunct1] s2 e
    unfolding c2 b2 by simp
  ultimately show ?thesis using gf by simp
qed

text \<open>
  The claim as written leaves out the first case: the pattern \<open>.aws/credentials\<close> of the
  default list has no metacharacter and blocks the path \<open>.aws/credentials\<close>, whose
  basename is \<open>credentials\<close> and which does not end with \<open>/.aws/credentials\<close>.
\<close>

theorem IsPathBlocked_full_path_counterexample:
  "glob_free ''.aws/credentials''
   \<and> ''.aws/credentials'' \<in> set defaultBlockedPatterns
   \<and> IsPathBlocked [''.aws/credentials''] ''.aws/credentials''
   \<and> filepath_Base (filepath_Clean ''.aws/credentials'') \<noteq> ''.aws/credentials''
   \<and> \<not> strings_HasSuffix (filepath_Clean ''.aws/credentials'') ''/.aws/credentials''"
proof -
  have 1: "glob_free ''.aws/credentials''" by (simp add: glob_free_def)
  have 2: "''.aws/credentials'' \<in> set defaultBlockedPatterns" by (simp add: defaultBlockedPatterns_def)
  have 3: "IsPathBlocked [''.aws/credentials''] ''.aws/credentials''" by code_simp
  have 4: "filepath_Base (filepath_Clean ''.aws/credentials'') \<noteq> ''.aws/credentials''" by code_simp
  have 5: "\<not> strings_HasSuffix (filepath_Clean ''.aws/credentials'') ''/.aws/credentials''" by code_simp
  show ?thesis using 1 2 3 4 5 by (intro conjI)
qed

section \<open>Path validation\<close>

text \<open>
  Claim C1 (a defect of the code).  \<open>validatePath\<close> compares the resolved path with the
  working directory as strings.  In the working directory \<open>/home/user/proj\<close> the path
  \<open>../proj-old/notes.txt\<close> resolves to \<open>/home/user/proj-old/notes.txt\<close>, which is not
  below the working directory (its elements do not start with those of the working
  directory), and yet \<open>validatePath\<close> succeeds and returns the cleaned path.
\<close>

theorem validatePath_accepts_sibling_directory:
  "validatePath example_env ''../proj-old/notes.txt'' = Inr ''../proj-old/notes.txt''
   \<and> filepath_Clean ''../proj-old/notes.txt'' = ''../proj-old/notes.txt''
   \<and> filepath_Abs example_env ''.'' = Inr ''/home/user/proj''
   \<and> filepath_Abs example_env ''../proj-old/notes.txt'' = Inr ''/home/user/proj-old/notes.txt''
   \<and> path_elems ''/home/user/proj'' = [''home'', ''user'', ''proj'']
   \<and> path_elems ''/home/user/proj-old/notes.txt'' = [''home'', ''user'', ''proj-old'', ''notes.txt'']
   \<and> \<not> prefix (path_elems ''/home/user/proj'') (path_elems ''/home/user/proj-old/notes.txt'')"
proof -
  have 1: "validatePath example_env ''../proj-old/notes.txt'' = Inr ''../proj-old/notes.txt''"
    by code_simp
  have 2: "filepath_Clean ''../proj-old/notes.txt'' = ''../proj-old/notes.txt''"
    by code_simp
  have 3: "filepath_Abs example_env ''.'' = Inr ''/home/user/proj''"
    by code_simp
  have 4: "filepath_Abs example_env ''../proj-old/notes.txt'' = Inr ''/home/user/proj-old/notes.txt''"
    by code_simp
  have 5: "path_elems ''/home/user/proj'' = [''home'', ''user'', ''proj'']"
    by code_simp
  have 6: "path_elems ''/home/user/proj-old/notes.txt'' = [''home'', ''user'', ''proj-old'', ''notes.txt'']"
    by code_simp
  have 7: "\<not> prefix (path_elems ''/home/user/proj'') (path_elems ''/home/user/proj-old/notes.txt'')"
    unfolding 5 6 by simp
  show ?thesis using 1 2 3 4 5 6 7 by (intro conjI)
qed

section \<open>Running an external command\<close>

text \<open>
  In the words of the specification.  The output that is handed on: as it is, or its first
  50000 bytes followed by the marker when it is longer.
\<close>

definition cut_output :: "string \<Rightarrow> string" where
  "cut_output out =
     (if 50000 < length out then take 50000 out @ CHR 0x0A # ''... (output truncated)''
      else out)"

text \<open>
  What is reported for one run of an external command: a run that ended with an error on
  the deadline is the error \<open>command timed out\<close>, whatever the output; a run that ended
  with an error, not on the deadline, and without output is that error; every other run
  (no error, or an error with some output) is a success with the output.
\<close>

definition reports :: "process_result \<Rightarrow> tool_error + string \<Rightarrow> bool" where
  "reports pr r =
     ((wait_error pr \<noteq> None \<and> deadline_exceeded pr \<longrightarrow> r = Inl CommandTimedOut)
      \<and> (\<forall>err. wait_error pr = Some err \<and> \<not> deadline_exceeded pr \<and> combined_output pr = [] \<longrightarrow>
             r = Inl (CommandFailed err))
      \<and> (wait_error pr \<noteq> None \<and> \<not> deadline_exceeded pr \<and> combined_output pr \<noteq> [] \<longrightarrow>
             r = Inr (cut_output (combined_output pr)))
      \<and> (wait_error pr = None \<longrightarrow> r = Inr (cut_output (combined_output pr))))"

lemma runCommand_reports:
  "reports (run_process e w name argv) (fst (runCommand e name argv w))"
  by (auto simp: reports_def cut_output_def runCommand_def runCommand_result_def maxLen_def
        truncation_marker_def Let_def split: option.splits)

lemma runCommand_spawned:
  "snd (runCommand e name argv w) = w\<lparr>spawned := spawned w @ [(name, argv)]\<rparr>"
  by (simp add: runCommand_def)

lemma executeLs_reports:
  "reports (run_process e w ''ls'' [''-la'', getString args ''path'' ''.''])
     (fst (executeLs e args w))"
  unfolding executeLs_def Let_def by (rule runCommand_reports)

lemma executeCat_reports:
  assumes "getString args ''path'' [] \<noteq> []"
    and "\<not> IsPathBlocked (blockedPatterns e) (getString args ''path'' [])"
  shows "reports (run_process e w ''cat'' [getString args ''path'' []])
     (fst (executeCat e args w))"
  using assms runCommand_reports[of e w "''cat''" "[getString args ''path'' []]"]
  by (simp add: executeCat_def Let_def)

lemma executeHead_reports:
  assumes "getString args ''path'' [] \<noteq> []"
    and "\<not> IsPathBlocked (blockedPatterns e) (getString args ''path'' [])"
  shows "reports
     (run_process e w ''head''
        [''-n'', Sprintf_d (getInt e args ''lines'' 50), getString args ''path'' []])
     (fst (executeHead e args w))"
  using assms
    runCommand_reports[of e w "''head''"
      "[''-n'', Sprintf_d (getInt e args ''lines'' 50), getString args ''path'' []]"]
  by (simp add: executeHead_def Let_def)

lemma executeGrep_reports:
  assumes "getString args ''pattern'' [] \<noteq> []"
  shows "\<exists>r. reports
           (run_process e w ''grep''
              ([''-n'', ''--color=never'']
                 @ (if getBool args ''recursive'' True then [''-r''] else [])
                 @ [''--'', getString args ''pattern'' [], getString args ''path'' ''.'']))
           r
         \<and> fst (executeGrep e args w)
           = (case r of
                Inl err \<Rightarrow> Inl err
              | Inr out \<Rightarrow>
                  Inr (strings_Join
                         (grep_filter (blockedPatterns e) [] (strings_Split out (CHR 0x0A)))
                         [CHR 0x0A]))"
proof -
  let ?argv = "[''-n'', ''--color=never'']
                 @ (if getBool args ''recursive'' True then [''-r''] else [])
                 @ [''--'', getString args ''pattern'' [], getString args ''path'' ''.'']"
  have "fst (executeGrep e args w)
      = (case fst (runCommand e ''grep'' ?argv w) of
           Inl err \<Rightarrow> Inl err
         | Inr out \<Rightarrow>
             Inr (strings_Join
                    (grep_filter (blockedPatterns e) [] (strings_Split out (CHR 0x0A)))
                    [CHR 0x0A]))"
    using assms
    by (cases "runCommand e ''grep'' ?argv w")
       (auto simp: executeGrep_def Let_def split: sum.splits)
  with runCommand_reports[of e w "''grep''" ?argv] show ?thesis by blast
qed

lemma executeFind_reports:
  assumes "getString args ''pattern'' [] \<noteq> []"
  shows "\<exists>r. reports
           (run_process e w ''find''
              [getString args ''path'' ''.'', ''-name'', getString args ''pattern'' [],
               ''-type'', ''f''])
           r
         \<and> fst (executeFind e args w)
           = (case r of
                Inl err \<Rightarrow> Inl err
              | Inr out \<Rightarrow>
                  Inr (strings_Join (find_filter e [] (strings_Split out (CHR 0x0A)))
                         [CHR 0x0A]))"
proof -
  let ?argv = "[getString args ''path'' ''.'', ''-name'', getString args ''pattern'' [],
               ''-type'', ''f'']"
  have "fst (executeFind e args w)
      = (case fst (runCommand e ''find'' ?argv w) of
           Inl err \<Rightarrow> Inl err
         | Inr out \<Rightarrow>
             Inr (strings_Join (find_filter e [] (strings_Split out (CHR 0x0A)))
                    [CHR 0x0A]))"
    using assms
    by (cases "runCommand e ''find'' ?argv w")
       (auto simp: executeFind_def Let_def split: sum.splits)
  with runCommand_reports[of e w "''find''" ?argv] show ?thesis by blast
qed

text \<open>
  \<open>executeTree\<close>: the command \<open>tree\<close> first; its success is the result.  When it timed
  out, so does the tool, and nothing else is started.  On any other error of \<open>tree\<close> the
  command \<open>find\<close> is run, and what its run comes to is the result.
\<close>

lemma executeTree_reports:
  "\<exists>r. reports
         (run_process e w ''tree''
            [''-L'', Sprintf_d (getInt e args ''depth'' 3), getString args ''path'' ''.''])
         r
       \<and> (\<forall>out. r = Inr out \<longrightarrow>
             executeTree e args w
               = (Inr out,
                  w\<lparr>spawned := spawned w
                      @ [(''tree'', [''-L'', Sprintf_d (getInt e args ''depth'' 3),
                                     getString args ''path'' ''.''])]\<rparr>))
       \<and> (r = Inl CommandTimedOut \<longrightarrow>
             executeTree e args w
               = (Inl CommandTimedOut,
                  w\<lparr>spawned := spawned w
                      @ [(''tree'', [''-L'', Sprintf_d (getInt e args ''depth'' 3),
                                     getString args ''path'' ''.''])]\<rparr>))
       \<and> (\<forall>err. r = Inl err \<and> err \<noteq> CommandTimedOut \<longrightarrow>
             reports
               (run_process e
                  (w\<lparr>spawned := spawned w
                      @ [(''tree'', [''-L'', Sprintf_d (getInt e args ''depth'' 3),
                                     getString args ''path'' ''.''])]\<rparr>)
                  ''find''
                  [getString args ''path'' ''.'', ''-maxdepth'',
                   Sprintf_d (getInt e args ''depth'' 3), ''-print''])
               (fst (executeTree e args w))
             \<and> spawned (snd (executeTree e args w))
               = spawned w
                   @ [(''tree'', [''-L'', Sprintf_d (getInt e args ''depth'' 3),
                                  getString args ''path'' ''.'']),
                      (''find'', [getString args ''path'' ''.'', ''-maxdepth'',
                                  Sprintf_d (getInt e args ''depth'' 3), ''-print''])])"
proof -
  let ?tree = "[''-L'', Sprintf_d (getInt e args ''depth'' 3), getString args ''path'' ''.'']"
  let ?find = "[getString args ''path'' ''.'', ''-maxdepth'',
                Sprintf_d (getInt e args ''depth'' 3), ''-print'']"
  let ?w1 = "w\<lparr>spawned := spawned w @ [(''tree'', ?tree)]\<rparr>"
  have first: "runCommand e ''tree'' ?tree w = (fst (runCommand e ''tree'' ?tree w), ?w1)"
    by (simp add: runCommand_def)
  have unfold: "executeTree e args w
      = (case fst (runCommand e ''tree'' ?tree w) of
           Inl err \<Rightarrow>
             if err = CommandTimedOut then (Inl CommandTimedOut, ?w1)
             else runCommand e ''find'' ?find ?w1
         | Inr result \<Rightarrow> (Inr result, ?w1))"
    unfolding executeTree_def Let_def by (subst first) (simp split: sum.splits)
  have second: "reports (run_process e ?w1 ''find'' ?find) (fst (runCommand e ''find'' ?find ?w1))"
    by (rule runCommand_reports)
  have log: "spawned (snd (runCommand e ''find'' ?find ?w1))
      = spawned w @ [(''tree'', ?tree), (''find'', ?find)]"
    by (simp add: runCommand_def)
  show ?thesis
  proof (intro exI[of _ "fst (runCommand e ''tree'' ?tree w)"] conjI allI impI)
    show "reports (run_process e w ''tree'' ?tree) (fst (runCommand e ''tree'' ?tree w))"
      by (rule runCommand_reports)
  next
    fix out assume "fst (runCommand e ''tree'' ?tree w) = Inr out"
    then show "executeTree e args w = (Inr out, ?w1)" by (simp add: unfold)
  next
    assume "fst (runCommand e ''tree'' ?tree w) = Inl CommandTimedOut"
    then show "executeTree e args w = (Inl CommandTimedOut, ?w1)" by (simp add: unfold)
  next
    fix err assume a: "fst (runCommand e ''tree'' ?tree w) = Inl err \<and> err \<noteq> CommandTimedOut"
    then have eq: "executeTree e args w = runCommand e ''find'' ?find ?w1" by (simp add: unfold)
    show "reports (run_process e ?w1 ''find'' ?find) (fst (executeTree e args w))"
      unfolding eq by (rule second)
    show "spawned (snd (executeTree e args w))
        = spawned w @ [(''tree'', ?tree), (''find'', ?find)]"
      unfolding eq by (rule log)
  qed
qed

lemma ExecuteTool_dispatch:
  assumes "json_Unmarshal e argsJSON = Inr args"
    and "\<forall>p. args ''path'' = Some (JString p) \<longrightarrow> (\<exists>clean. validatePath e p = Inr clean)"
  shows "ExecuteTool e name argsJSON w =
      (if name = ''ls'' then executeLs e args w
       else if name = ''cat'' then executeCat e args w
       else if name = ''head'' then executeHead e args w
       else if name = ''grep'' then executeGrep e args w
       else if name = ''find'' then executeFind e args w
       else if name = ''tree'' then executeTree e args w
       else if name = ''write_markdown'' then executeWriteMarkdown e args w
       else (Inl (UnknownTool name), w))"
proof -
  have "\<exists>checked. (case args ''path'' of
                      Some (JString path) \<Rightarrow> validatePath e path
                    | _ \<Rightarrow> Inr []) = Inr checked"
    using assms(2) by (auto split: option.splits json.splits)
  then obtain checked where
    "(case args ''path'' of Some (JString path) \<Rightarrow> validatePath e path | _ \<Rightarrow> Inr [])
       = Inr checked"
    by blast
  then show ?thesis by (simp add: ExecuteTool_def assms(1))
qed

text \<open>
  Claim C5, as amended.  For every run of an external command by \<open>runCommand\<close>, and so for
  the tools \<open>ls\<close>, \<open>cat\<close> and \<open>head\<close>, which return what \<open>runCommand\<close> returns: a run
  that ended with an error on the deadline is the error \<open>command timed out\<close>, whatever the
  output; a run that ended with an error, not on the deadline, and printed nothing is
  that error; every other run is a success with the output, cut to its first 50000 bytes
  and followed by the marker when it was longer.  The tools \<open>grep\<close> and \<open>find\<close> return
  the errors of their command in the same way, and on success the output after their
  filter over the lines.  The tool \<open>tree\<close> returns the success of the command \<open>tree\<close>
  and its timeout in the same way; on any other error of \<open>tree\<close> it runs \<open>find\<close>
  and returns what that run comes to, by the same rules.  \<open>ExecuteTool\<close> returns what
  these tools return, when the arguments decode and the path among them, if there is
  one, passes \<open>validatePath\<close>.
\<close>

theorem tool_command_outcomes:
  "reports (run_process e w name argv) (fst (runCommand e name argv w))
   \<and> reports (run_process e w ''ls'' [''-la'', getString args ''path'' ''.''])
       (fst (executeLs e args w))
   \<and> (getString args ''path'' [] \<noteq> []
        \<and> \<not> IsPathBlocked (blockedPatterns e) (getString args ''path'' []) \<longrightarrow>
        reports (run_process e w ''cat'' [getString args ''path'' []])
          (fst (executeCat e args w))
        \<and> reports
            (run_process e w ''head''
               [''-n'', Sprintf_d (getInt e args ''lines'' 50), getString args ''path'' []])
            (fst (executeHead e args w)))
   \<and> (getString args ''pattern'' [] \<noteq> [] \<longrightarrow>
        (\<exists>r. reports
                (run_process e w ''grep''
                   ([''-n'', ''--color=never'']
                      @ (if getBool args ''recursive'' True then [''-r''] else [])
                      @ [''--'', getString args ''pattern'' [], getString args ''path'' ''.'']))
                r
              \<and> fst (executeGrep e args w)
                = (case r of
                     Inl err \<Rightarrow> Inl err
                   | Inr out \<Rightarrow>
                       Inr (strings_Join
                              (grep_filter (blockedPatterns e) []
                                 (strings_Split out (CHR 0x0A)))
                              [CHR 0x0A])))
        \<and> (\<exists>r. reports
                (run_process e w ''find''
                   [getString args ''path'' ''.'', ''-name'', getString args ''pattern'' [],
                    ''-type'', ''f''])
                r
              \<and> fst (executeFind e args w)
                = (case r of
                     Inl err \<Rightarrow> Inl err
                   | Inr out \<Rightarrow>
                       Inr (strings_Join (find_filter e [] (strings_Split out (CHR 0x0A)))
                              [CHR 0x0A]))))
   \<and> (\<exists>r. reports
             (run_process e w ''tree''
                [''-L'', Sprintf_d (getInt e args ''depth'' 3), getString args ''path'' ''.''])
             r
           \<and> (\<forall>out. r = Inr out \<longrightarrow>
                 executeTree e args w
                   = (Inr out,
                      w\<lparr>spawned := spawned w
                          @ [(''tree'', [''-L'', Sprintf_d (getInt e args ''depth'' 3),
                                         getString args ''path'' ''.''])]\<rparr>))
           \<and> (r = Inl CommandTimedOut \<longrightarrow>
                 executeTree e args w
                   = (Inl CommandTimedOut,
                      w\<lparr>spawned := spawned w
                          @ [(''tree'', [''-L'', Sprintf_d (getInt e args ''depth'' 3),
                                         getString args ''path'' ''.''])]\<rparr>))
           \<and> (\<forall>err. r = Inl err \<and> err \<noteq> CommandTimedOut \<longrightarrow>
                 reports
                   (run_process e
                      (w\<lparr>spawned := spawned w
                          @ [(''tree'', [''-L'', Sprintf_d (getInt e args ''depth'' 3),
                                         getString args ''path'' ''.''])]\<rparr>)
                      ''find''
                      [getString args ''path'' ''.'', ''-maxdepth'',
                       Sprintf_d (getInt e args ''depth'' 3), ''-print''])
                   (fst (executeTree e args w))
                 \<and> spawned (snd (executeTree e args w))
                   = spawned w
                       @ [(''tree'', [''-L'', Sprintf_d (getInt e args ''depth'' 3),
                                      getString args ''path'' ''.'']),
                          (''find'', [getString args ''path'' ''.'', ''-maxdepth'',
                                      Sprintf_d (getInt e args ''depth'' 3), ''-print''])]))
   \<and> (json_Unmarshal e argsJSON = Inr args
        \<and> (\<forall>p. args ''path'' = Some (JString p) \<longrightarrow> (\<exists>clean. validatePath e p = Inr clean)) \<longrightarrow>
        ExecuteTool e ''ls'' argsJSON w = executeLs e args w
        \<and> ExecuteTool e ''cat'' argsJSON w = executeCat e args w
        \<and> ExecuteTool e ''head'' argsJSON w = executeHead e args w
        \<and> ExecuteTool e ''grep'' argsJSON w = executeGrep e args w
        \<and> ExecuteTool e ''find'' argsJSON w = executeFind e args w
        \<and> ExecuteTool e ''tree'' argsJSON w = executeTree e args w)"
proof (intro conjI impI)
  show "reports (run_process e w name argv) (fst (runCommand e name argv w))"
    by (rule runCommand_reports)
  show "reports (run_process e w ''ls'' [''-la'', getString args ''path'' ''.''])
       (fst (executeLs e args w))"
    by (rule executeLs_reports)
next
  assume "getString args ''path'' [] \<noteq> []
        \<and> \<not> IsPathBlocked (blockedPatterns e) (getString args ''path'' [])"
  then have p: "getString args ''path'' [] \<noteq> []"
    "\<not> IsPathBlocked (blockedPatterns e) (getString args ''path'' [])"
    by simp_all
  show "reports (run_process e w ''cat'' [getString args ''path'' []])
          (fst (executeCat e args w))"
    by (rule executeCat_reports[OF p])
  show "reports
            (run_process e w ''head''
               [''-n'', Sprintf_d (getInt e args ''lines'' 50), getString args ''path'' []])
            (fst (executeHead e args w))"
    by (rule executeHead_reports[OF p])
next
  assume pat: "getString args ''pattern'' [] \<noteq> []"
  show "\<exists>r. reports
                (run_process e w ''grep''
                   ([''-n'', ''--color=never'']
                      @ (if getBool args ''recursive'' True then [''-r''] else [])
                      @ [''--'', getString args ''pattern'' [], getString args ''path'' ''.'']))
                r
              \<and> fst (executeGrep e args w)
                = (case r of
                     Inl err \<Rightarrow> Inl err
                   | Inr out \<Rightarrow>
                       Inr (strings_Join
                              (grep_filter (blockedPatterns e) []
                                 (strings_Split out (CHR 0x0A)))
                              [CHR 0x0A]))"
    by (rule executeGrep_reports[OF pat])
  show "\<exists>r. reports
                (run_process e w ''find''
                   [getString args ''path'' ''.'', ''-name'', getString args ''pattern'' [],
                    ''-type'', ''f''])
                r
              \<and> fst (executeFind e args w)
                = (case r of
                     Inl err \<Rightarrow> Inl err
                   | Inr out \<Rightarrow>
                       Inr (strings_Join (find_filter e [] (strings_Split out (CHR 0x0A)))
                              [CHR 0x0A]))"
    by (rule executeFind_reports[OF pat])
next
  show "\<exists>r. reports
             (run_process e w ''tree''
                [''-L'', Sprintf_d (getInt e args ''depth'' 3), getString args ''path'' ''.''])
             r
           \<and> (\<forall>out. r = Inr out \<longrightarrow>
                 executeTree e args w
                   = (Inr out,
                      w\<lparr>spawned := spawned w
                          @ [(''tree'', [''-L'', Sprintf_d (getInt e args ''depth'' 3),
                                         getString args ''path'' ''.''])]\<rparr>))
           \<and> (r = Inl CommandTimedOut \<longrightarrow>
                 executeTree e args w
                   = (Inl CommandTimedOut,
                      w\<lparr>spawned := spawned w
                          @ [(''tree'', [''-L'', Sprintf_d (getInt e args ''depth'' 3),
                                         getString args ''path'' ''.''])]\<rparr>))
           \<and> (\<forall>err. r = Inl err \<and> err \<noteq> CommandTimedOut \<longrightarrow>
                 reports
                   (run_process e
                      (w\<lparr>spawned := spawned w
                          @ [(''tree'', [''-L'', Sprintf_d (getInt e args ''depth'' 3),
                                         getString args ''path'' ''.''])]\<rparr>)
                      ''find''
                      [getString args ''path'' ''.'', ''-maxdepth'',
                       Sprintf_d (getInt e args ''depth'' 3), ''-print''])
                   (fst (executeTree e args w))
                 \<and> spawned (snd (executeTree e args w))
                   = spawned w
                       @ [(''tree'', [''-L'', Sprintf_d (getInt e args ''depth'' 3),
                                      getString args ''path'' ''.'']),
                          (''find'', [getString args ''path'' ''.'', ''-maxdepth'',
                                      Sprintf_d (getInt e args ''depth'' 3), ''-print''])])"
    by (rule executeTree_reports)
next
  assume "json_Unmarshal e argsJSON = Inr args
        \<and> (\<forall>p. args ''path'' = Some (JString p) \<longrightarrow> (\<exists>clean. validatePath e p = Inr clean))"
  then have decoded: "json_Unmarshal e argsJSON = Inr args"
    and valid: "\<forall>p. args ''path'' = Some (JString p) \<longrightarrow> (\<exists>clean. validatePath e p = Inr clean)"
    by simp_all
  note tool = ExecuteTool_dispatch[OF decoded valid]
  show "ExecuteTool e ''ls'' argsJSON w = executeLs e args w" by (simp add: tool)
  show "ExecuteTool e ''cat'' argsJSON w = executeCat e args w" by (simp add: tool)
  show "ExecuteTool e ''head'' argsJSON w = executeHead e args w" by (simp add: tool)
  show "ExecuteTool e ''grep'' argsJSON w = executeGrep e args w" by (simp add: tool)
  show "ExecuteTool e ''find'' argsJSON w = executeFind e args w" by (simp add: tool)
  show "ExecuteTool e ''tree'' argsJSON w = executeTree e args w" by (simp add: tool)
qed

text \<open>Four runs of a command, and an environment in which every command runs so.\<close>

definition timed_out_run :: process_result where
  "timed_out_run =
     \<lparr>combined_output = ''partial'', wait_error = Some ''signal: killed'',
      deadline_exceeded = True\<rparr>"

definition failure_with_output :: process_result where
  "failure_with_output =
     \<lparr>combined_output = ''cat: notes.txt: No such file or directory'',
      wait_error = Some ''exit status 1'', deadline_exceeded = False\<rparr>"

definition silent_failure :: process_result where
  "silent_failure =
     \<lparr>combined_output = [], wait_error = Some ''exit status 1'', deadline_exceeded = False\<rparr>"

definition long_output :: process_result where
  "long_output =
     \<lparr>combined_output = replicate 50001 (CHR ''a''), wait_error = None,
      deadline_exceeded = False\<rparr>"

definition env_running :: "process_result \<Rightarrow> env" where
  "env_running pr = example_env\<lparr>run_process := \<lambda>w name args. pr\<rparr>"

theorem tool_command_outcomes_witness:
  "executeTree (env_running timed_out_run) Map.empty example_world
     = (Inl CommandTimedOut,
        example_world\<lparr>spawned := spawned example_world @ [(''tree'', [''-L'', ''3'', ''.''])]\<rparr>)
   \<and> fst (executeLs (env_running silent_failure) Map.empty example_world)
     = Inl (CommandFailed ''exit status 1'')
   \<and> fst (executeCat (env_running failure_with_output) [''path'' \<mapsto> JString ''notes.txt'']
            example_world)
     = Inr ''cat: notes.txt: No such file or directory''
   \<and> fst (executeHead (env_running long_output) [''path'' \<mapsto> JString ''big.txt'']
            example_world)
     = Inr (replicate 50000 (CHR ''a'') @ CHR 0x0A # ''... (output truncated)'')
   \<and> fst (ExecuteTool (env_running timed_out_run) ''grep'' grep_env_json example_world)
     = Inl CommandTimedOut"
proof -
  let ?w = example_world
  have run: "run_process (env_running pr) w name argv = pr" for pr w name argv
    by (simp add: env_running_def)
  have pats: "blockedPatterns (env_running pr) = defaultBlockedPatterns" for pr
    by (simp add: env_running_def example_env_def)
  have three: "Sprintf_d 3 = ''3''" by code_simp
  have depth: "getInt e Map.empty ''depth'' 3 = 3" for e by (simp add: getInt_def)
  have dot: "getString Map.empty ''path'' ''.'' = ''.''" by (simp add: getString_def)
  have path1: "getString [''path'' \<mapsto> JString ''notes.txt''] ''path'' [] = ''notes.txt''"
    by (simp add: getString_def)
  have path2: "getString [''path'' \<mapsto> JString ''big.txt''] ''path'' [] = ''big.txt''"
    by (simp add: getString_def)
  have free1: "\<not> IsPathBlocked defaultBlockedPatterns ''notes.txt''" by code_simp
  have free2: "\<not> IsPathBlocked defaultBlockedPatterns ''big.txt''" by code_simp
  note inst_tree = tool_command_outcomes[where e = "env_running timed_out_run" and w = ?w
        and args = Map.empty, THEN conjunct2, THEN conjunct2, THEN conjunct2, THEN conjunct2,
        THEN conjunct1]
  from inst_tree obtain r where
    r: "reports timed_out_run r"
    and t: "r = Inl CommandTimedOut \<longrightarrow>
         executeTree (env_running timed_out_run) Map.empty ?w
           = (Inl CommandTimedOut,
              ?w\<lparr>spawned := spawned ?w @ [(''tree'', [''-L'', ''3'', ''.''])]\<rparr>)"
    unfolding run depth dot three by blast
  from r have "r = Inl CommandTimedOut" by (simp add: reports_def timed_out_run_def)
  with t have 1: "executeTree (env_running timed_out_run) Map.empty ?w
           = (Inl CommandTimedOut,
              ?w\<lparr>spawned := spawned ?w @ [(''tree'', [''-L'', ''3'', ''.''])]\<rparr>)"
    by simp
  note inst_ls = tool_command_outcomes[where e = "env_running silent_failure" and w = ?w
        and args = Map.empty, THEN conjunct2, THEN conjunct1]
  have 2: "fst (executeLs (env_running silent_failure) Map.empty ?w)
      = Inl (CommandFailed ''exit status 1'')"
    using inst_ls unfolding run by (simp add: reports_def silent_failure_def)
  note inst_cat = tool_command_outcomes[where e = "env_running failure_with_output" and w = ?w
        and args = "[''path'' \<mapsto> JString ''notes.txt'']",
        THEN conjunct2, THEN conjunct2, THEN conjunct1, THEN mp, THEN conjunct1]
  have 3: "fst (executeCat (env_running failure_with_output) [''path'' \<mapsto> JString ''notes.txt'']
            ?w) = Inr ''cat: notes.txt: No such file or directory''"
    using inst_cat free1 unfolding run path1 pats
    by (simp add: reports_def failure_with_output_def cut_output_def)
  note inst_head = tool_command_outcomes[where e = "env_running long_output" and w = ?w
        and args = "[''path'' \<mapsto> JString ''big.txt'']",
        THEN conjunct2, THEN conjunct2, THEN conjunct1, THEN mp, THEN conjunct2]
  have 4: "fst (executeHead (env_running long_output) [''path'' \<mapsto> JString ''big.txt''] ?w)
      = Inr (replicate 50000 (CHR ''a'') @ CHR 0x0A # ''... (output truncated)'')"
    using inst_head free2 unfolding run path2 pats
    by (simp add: reports_def long_output_def cut_output_def)
  let ?args = "[''pattern'' \<mapsto> JString ''KEY'', ''path'' \<mapsto> JString ''.env'']"
  have decoded: "json_Unmarshal (env_running timed_out_run) grep_env_json = Inr ?args"
    by (simp add: env_running_def example_env_def example_args_def)
  have checked: "validatePath (env_running timed_out_run) ''.env'' = Inr ''.env''" by code_simp
  have valid: "\<forall>p. ?args ''path'' = Some (JString p) \<longrightarrow>
      (\<exists>clean. validatePath (env_running timed_out_run) p = Inr clean)"
    using checked by simp
  have pattern: "getString ?args ''pattern'' [] \<noteq> []" by (simp add: getString_def)
  note inst = tool_command_outcomes[where e = "env_running timed_out_run" and w = ?w
        and args = ?args and argsJSON = grep_env_json]
  have dispatch: "ExecuteTool (env_running timed_out_run) ''grep'' grep_env_json ?w
      = executeGrep (env_running timed_out_run) ?args ?w"
    using inst decoded valid by blast
  from inst pattern obtain r where
    r: "reports timed_out_run r"
    and g: "fst (executeGrep (env_running timed_out_run) ?args ?w)
        = (case r of
             Inl err \<Rightarrow> Inl err
           | Inr out \<Rightarrow>
               Inr (strings_Join
                      (grep_filter (blockedPatterns (env_running timed_out_run)) []
                         (strings_Split out (CHR 0x0A)))
                      [CHR 0x0A]))"
    unfolding run by blast
  from r have "r = Inl CommandTimedOut" by (simp add: reports_def timed_out_run_def)
  with g dispatch have 5: "fst (ExecuteTool (env_running timed_out_run) ''grep'' grep_env_json ?w)
      = Inl CommandTimedOut"
    by simp
  show ?thesis using 1 2 3 4 5 by (intro conjI)
qed

text \<open>
  The claim as written speaks of every tool.  When the command \<open>tree\<close> ends with a
  non-zero exit and no output (it is not installed, say), the tool \<open>tree\<close> does not
  surface that error: it runs \<open>find\<close> and returns its output as a success.  And when
  \<open>grep\<close> ends with a non-zero exit and some output, the tool returns a success, but with
  the output filtered: here with none of it.
\<close>

definition tree_missing :: "world \<Rightarrow> string \<Rightarrow> string list \<Rightarrow> process_result" where
  "tree_missing w name args =
     (if name = ''tree'' then
        \<lparr>combined_output = [], wait_error = Some ''exit status 1'', deadline_exceeded = False\<rparr>
      else if name = ''grep'' then
        \<lparr>combined_output = ''.env:1:API_KEY=secret'' @ [CHR 0x0A],
         wait_error = Some ''exit status 2'', deadline_exceeded = False\<rparr>
      else
        \<lparr>combined_output = ''.'' @ [CHR 0x0A] @ ''./main.go'' @ [CHR 0x0A],
         wait_error = None, deadline_exceeded = False\<rparr>)"

theorem executeTree_fallback_counterexample:
  "run_process (example_env\<lparr>run_process := tree_missing\<rparr>) example_world ''tree''
       [''-L'', ''3'', ''.'']
     = \<lparr>combined_output = [], wait_error = Some ''exit status 1'', deadline_exceeded = False\<rparr>
   \<and> executeTree (example_env\<lparr>run_process := tree_missing\<rparr>) Map.empty example_world
     = (Inr (''.'' @ [CHR 0x0A] @ ''./main.go'' @ [CHR 0x0A]),
        example_world\<lparr>spawned := [(''tree'', [''-L'', ''3'', ''.'']),
                                  (''find'', [''.'', ''-maxdepth'', ''3'', ''-print''])]\<rparr>)
   \<and> run_process (example_env\<lparr>run_process := tree_missing\<rparr>) example_world ''grep''
       [''-n'', ''--color=never'', ''-r'', ''--'', ''KEY'', ''.'']
     = \<lparr>combined_output = ''.env:1:API_KEY=secret'' @ [CHR 0x0A],
        wait_error = Some ''exit status 2'', deadline_exceeded = False\<rparr>
   \<and> fst (executeGrep (example_env\<lparr>run_process := tree_missing\<rparr>)
            [''pattern'' \<mapsto> JString ''KEY''] example_world)
     = Inr []"
proof -
  let ?e = "example_env\<lparr>run_process := tree_missing\<rparr>"
  have three: "Sprintf_d 3 = ''3''" by code_simp
  have 1: "run_process ?e example_world ''tree'' [''-L'', ''3'', ''.'']
     = \<lparr>combined_output = [], wait_error = Some ''exit status 1'', deadline_exceeded = False\<rparr>"
    by (simp add: tree_missing_def)
  have 2: "executeTree ?e Map.empty example_world
     = (Inr (''.'' @ [CHR 0x0A] @ ''./main.go'' @ [CHR 0x0A]),
        example_world\<lparr>spawned := [(''tree'', [''-L'', ''3'', ''.'']),
                                  (''find'', [''.'', ''-maxdepth'', ''3'', ''-print''])]\<rparr>)"
    by (simp add: executeTree_def getString_def getInt_def three runCommand_def
          runCommand_result_def tree_missing_def maxLen_def example_world_def Let_def)
  have 3: "run_process ?e example_world ''grep''
       [''-n'', ''--color=never'', ''-r'', ''--'', ''KEY'', ''.'']
     = \<lparr>combined_output = ''.env:1:API_KEY=secret'' @ [CHR 0x0A],
        wait_error = Some ''exit status 2'', deadline_exceeded = False\<rparr>"
    by (simp add: tree_missing_def)
  have kept: "strings_Join
       (grep_filter defaultBlockedPatterns []
          (strings_Split (''.env:1:API_KEY=secret'' @ [CHR 0x0A]) (CHR 0x0A))) [CHR 0x0A] = []"
    by code_simp
  have pats: "blockedPatterns ?e = defaultBlockedPatterns" by (simp add: example_env_def)
  have 4: "fst (executeGrep ?e [''pattern'' \<mapsto> JString ''KEY''] example_world) = Inr []"
    using kept
    by (simp add: executeGrep_def getString_def getBool_def runCommand_def
          runCommand_result_def tree_missing_def maxLen_def pats)
  show ?thesis using 1 2 3 4 by (intro conjI)
qed

section \<open>The line filter of grep\<close>

text \<open>
  In the words of the specification: a line is dropped when it has a colon at a positive
  index and the segment before its first colon is a blocked path.
\<close>

definition leading_filename :: "string \<Rightarrow> string" where
  "leading_filename line = takeWhile (\<lambda>c. c \<noteq> CHR '':'') line"

definition dropped_by_filter :: "string list \<Rightarrow> string \<Rightarrow> bool" where
  "dropped_by_filter blocked line =
     (CHR '':'' \<in> set line \<and> leading_filename line \<noteq> []
        \<and> IsPathBlocked blocked (leading_filename line))"

lemma strings_Index_takeWhile:
  "strings_Index line c =
     (if c \<in> set line then int (length (takeWhile (\<lambda>x. x \<noteq> c) line)) else - 1)"
  by (induction line) (auto simp: Let_def)

lemma grep_filter_condition:
  "(0 < strings_Index line (CHR '':'')
      \<and> IsPathBlocked blocked (take (nat (strings_Index line (CHR '':''))) line))
   \<longleftrightarrow> dropped_by_filter blocked line"
  by (auto simp: strings_Index_takeWhile dropped_by_filter_def leading_filename_def
        takeWhile_eq_take[symmetric])

lemma grep_filter_eq:
  "grep_filter blocked acc lines = acc @ filter (\<lambda>line. \<not> dropped_by_filter blocked line) lines"
proof (induction lines arbitrary: acc)
  case Nil
  then show ?case by simp
next
  case (Cons line lines)
  show ?case
    using grep_filter_condition[of line blocked]
    by (cases "dropped_by_filter blocked line") (simp_all add: Cons.IH Let_def)
qed

lemma strings_Split_no_sep: "sep \<notin> set s \<Longrightarrow> strings_Split s sep = [s]"
  by (induction s) auto

lemma strings_Split_append:
  "sep \<notin> set x \<Longrightarrow> strings_Split (x @ sep # rest) sep = x # strings_Split rest sep"
  by (induction x) auto

lemma strings_Split_lines_free: "l \<in> set (strings_Split s sep) \<Longrightarrow> sep \<notin> set l"
  by (induction s arbitrary: l) (auto split: list.splits if_splits)

lemma strings_Split_Join:
  "ls \<noteq> [] \<Longrightarrow> (\<And>l. l \<in> set ls \<Longrightarrow> sep \<notin> set l)
     \<Longrightarrow> strings_Split (strings_Join ls [sep]) sep = ls"
proof (induction ls "[sep]" rule: strings_Join.induct)
  case 1
  then show ?case by simp
next
  case (2 x)
  then show ?case by (simp add: strings_Split_no_sep)
next
  case (3 x y ys)
  then show ?case by (simp add: strings_Split_append)
qed


text \<open>
  Claim C6.  When \<open>executeGrep\<close> returns a result, the command it ran returned some
  text, and the result is that text with its lines filtered: the lines dropped are
  exactly those with a colon at a positive index whose segment before the first colon is
  a blocked path; every other line (one without a colon, one that starts with a colon)
  is kept as it is, in the order of the output, and the kept lines are the lines of the
  result.
\<close>

theorem executeGrep_filters_lines:
  assumes "executeGrep e args w = (Inr out, w')"
  shows "\<exists>result.
           fst (runCommand e ''grep''
                  ([''-n'', ''--color=never'']
                     @ (if getBool args ''recursive'' True then [''-r''] else [])
                     @ [''--'', getString args ''pattern'' [], getString args ''path'' ''.'']) w)
             = Inr result
         \<and> out = strings_Join
                   (filter (\<lambda>line. \<not> dropped_by_filter (blockedPatterns e) line)
                      (strings_Split result (CHR 0x0A))) [CHR 0x0A]
         \<and> (filter (\<lambda>line. \<not> dropped_by_filter (blockedPatterns e) line)
               (strings_Split result (CHR 0x0A)) \<noteq> [] \<longrightarrow>
             strings_Split out (CHR 0x0A)
               = filter (\<lambda>line. \<not> dropped_by_filter (blockedPatterns e) line)
                   (strings_Split result (CHR 0x0A)))"
proof -
  let ?grepArgs = "[''-n'', ''--color=never'']
                     @ (if getBool args ''recursive'' True then [''-r''] else [])
                     @ [''--'', getString args ''pattern'' [], getString args ''path'' ''.'']"
  from assms obtain result where
    run: "runCommand e ''grep'' ?grepArgs w = (Inr result, w')"
    and out: "out = strings_Join (grep_filter (blockedPatterns e) []
                      (strings_Split result (CHR 0x0A))) [CHR 0x0A]"
    by (auto simp: executeGrep_def Let_def split: if_splits prod.splits sum.splits)
  let ?kept = "filter (\<lambda>line. \<not> dropped_by_filter (blockedPatterns e) line)
                 (strings_Split result (CHR 0x0A))"
  have out': "out = strings_Join ?kept [CHR 0x0A]"
    using out by (simp add: grep_filter_eq)
  have free: "CHR 0x0A \<notin> set l" if "l \<in> set ?kept" for l
    using that strings_Split_lines_free[of l result "CHR 0x0A"] by simp
  have roundtrip: "?kept \<noteq> [] \<longrightarrow> strings_Split out (CHR 0x0A) = ?kept"
    unfolding out' using strings_Split_Join[of ?kept "CHR 0x0A"] free by blast
  show ?thesis using run out' roundtrip by (intro exI[of _ result]) simp
qed

definition grep_example_env :: env where
  "grep_example_env =
     example_env\<lparr>run_process := \<lambda>w name args.
       \<lparr>combined_output =
          ''a.go:3:k'' @ [CHR 0x0A] @ ''.env:1:K=1'' @ [CHR 0x0A] @ '':z'' @ [CHR 0x0A] @ ''p'',
        wait_error = None, deadline_exceeded = False\<rparr>\<rparr>"

theorem executeGrep_filters_lines_witness:
  "\<exists>result.
     fst (runCommand grep_example_env ''grep''
            ([''-n'', ''--color=never'']
               @ (if getBool [''pattern'' \<mapsto> JString ''K''] ''recursive'' True then [''-r''] else [])
               @ [''--'', getString [''pattern'' \<mapsto> JString ''K''] ''pattern'' [],
                  getString [''pattern'' \<mapsto> JString ''K''] ''path'' ''.'']) example_world)
       = Inr result
     \<and> ''a.go:3:k'' @ [CHR 0x0A] @ '':z'' @ [CHR 0x0A] @ ''p''
         = strings_Join
             (filter (\<lambda>line. \<not> dropped_by_filter (blockedPatterns grep_example_env) line)
                (strings_Split result (CHR 0x0A))) [CHR 0x0A]
     \<and> (filter (\<lambda>line. \<not> dropped_by_filter (blockedPatterns grep_example_env) line)
             (strings_Split result (CHR 0x0A)) \<noteq> [] \<longrightarrow>
           strings_Split (''a.go:3:k'' @ [CHR 0x0A] @ '':z'' @ [CHR 0x0A] @ ''p'') (CHR 0x0A)
             = filter (\<lambda>line. \<not> dropped_by_filter (blockedPatterns grep_example_env) line)
                 (strings_Split result (CHR 0x0A)))"
proof -
  let ?args = "[''pattern'' \<mapsto> JString ''K'']"
  let ?raw = "''a.go:3:k'' @ [CHR 0x0A] @ ''.env:1:K=1'' @ [CHR 0x0A] @ '':z'' @ [CHR 0x0A] @ ''p''"
  let ?out = "''a.go:3:k'' @ [CHR 0x0A] @ '':z'' @ [CHR 0x0A] @ ''p''"
  have raw: "runCommand_result (run_process grep_example_env w name as) = Inr ?raw" for w name as
    by (simp add: grep_example_env_def runCommand_result_def maxLen_def)
  have pats: "blockedPatterns grep_example_env = defaultBlockedPatterns"
    by (simp add: grep_example_env_def example_env_def)
  have kept: "strings_Join (grep_filter defaultBlockedPatterns [] (strings_Split ?raw (CHR 0x0A)))
      [CHR 0x0A] = ?out"
    by code_simp
  have ev: "executeGrep grep_example_env ?args example_world
      = (Inr ?out, snd (executeGrep grep_example_env ?args example_world))"
    using kept
    by (simp add: executeGrep_def runCommand_def getString_def getBool_def raw pats
          del: grep_filter.simps strings_Split.simps strings_Join.simps)
  show ?thesis by (rule executeGrep_filters_lines[OF ev])
qed

section \<open>Which tools the filter stops\<close>

lemma runCommand_never_access_denied:
  "fst (runCommand e name args w) \<noteq> Inl (AccessDenied x)"
  by (auto simp: runCommand_def runCommand_result_def Let_def split: option.splits)

lemma validatePath_never_access_denied: "validatePath e p \<noteq> Inl (AccessDenied x)"
  by (auto simp: validatePath_def Let_def split: sum.splits)

lemma filtered_run_never_access_denied:
  "fst (case runCommand e name as w of
          (Inl err, w') \<Rightarrow> (Inl err, w')
        | (Inr result, w') \<Rightarrow> (Inr (f result), w')) \<noteq> Inl (AccessDenied x)"
  using runCommand_never_access_denied[of e name as w x]
  by (cases "runCommand e name as w") (auto split: sum.splits)

lemma executeGrep_never_access_denied:
  "fst (executeGrep e args w) \<noteq> Inl (AccessDenied x)"
  unfolding executeGrep_def Let_def
  by (simp only: filtered_run_never_access_denied split: if_splits) simp

text \<open>
  Claim C10.  \<open>ExecuteTool\<close> with the tool \<open>grep\<close> never returns an access-denied error,
  whatever its arguments.  When the arguments decode, the path \<open>p\<close> they carry passes
  \<open>validatePath\<close> and the pattern is not empty, the search is run over \<open>p\<close> (the command
  \<open>grep ... -- pattern p\<close> is started), also when \<open>p\<close> is a blocked path, and the result is
  the output of the command without the lines whose leading file name is blocked.  With
  the same arguments and a blocked \<open>p\<close>, \<open>cat\<close> and \<open>head\<close> return the access-denied error
  and start no command: the world is unchanged.
\<close>

theorem grep_path_not_gated_by_filter:
  "(\<forall>x. fst (ExecuteTool e ''grep'' argsJSON w) \<noteq> Inl (AccessDenied x))
   \<and> (json_Unmarshal e argsJSON = Inr args \<and> args ''path'' = Some (JString p) \<and> p \<noteq> []
        \<and> validatePath e p = Inr clean \<longrightarrow>
        (getString args ''pattern'' [] \<noteq> [] \<longrightarrow>
           snd (ExecuteTool e ''grep'' argsJSON w)
             = w\<lparr>spawned := spawned w @
                   [(''grep'', [''-n'', ''--color=never'']
                       @ (if getBool args ''recursive'' True then [''-r''] else [])
                       @ [''--'', getString args ''pattern'' [], p])]\<rparr>
           \<and> fst (ExecuteTool e ''grep'' argsJSON w)
             = (case runCommand_result (run_process e w ''grep''
                       ([''-n'', ''--color=never'']
                          @ (if getBool args ''recursive'' True then [''-r''] else [])
                          @ [''--'', getString args ''pattern'' [], p])) of
                  Inl err \<Rightarrow> Inl err
                | Inr result \<Rightarrow>
                    Inr (strings_Join
                           (filter (\<lambda>line. \<not> dropped_by_filter (blockedPatterns e) line)
                              (strings_Split result (CHR 0x0A))) [CHR 0x0A])))
        \<and> (IsPathBlocked (blockedPatterns e) p \<longrightarrow>
             ExecuteTool e ''cat'' argsJSON w = (Inl (AccessDenied p), w)
             \<and> ExecuteTool e ''head'' argsJSON w = (Inl (AccessDenied p), w)))"
proof (intro conjI allI impI)
  fix x
  show "fst (ExecuteTool e ''grep'' argsJSON w) \<noteq> Inl (AccessDenied x)"
    using executeGrep_never_access_denied[of e _ w x] validatePath_never_access_denied[of e _ x]
    by (auto simp: ExecuteTool_def split: sum.splits option.splits json.splits)
next
  assume a: "json_Unmarshal e argsJSON = Inr args \<and> args ''path'' = Some (JString p) \<and> p \<noteq> []
        \<and> validatePath e p = Inr clean"
  then have tool: "ExecuteTool e name argsJSON w =
      (if name = ''ls'' then executeLs e args w
       else if name = ''cat'' then executeCat e args w
       else if name = ''head'' then executeHead e args w
       else if name = ''grep'' then executeGrep e args w
       else if name = ''find'' then executeFind e args w
       else if name = ''tree'' then executeTree e args w
       else if name = ''write_markdown'' then executeWriteMarkdown e args w
       else (Inl (UnknownTool name), w))" for name
    by (simp add: ExecuteTool_def)
  from a have path: "getString args ''path'' d = p" for d
    by (simp add: getString_def)
  {
    assume pat: "getString args ''pattern'' [] \<noteq> []"
    show "snd (ExecuteTool e ''grep'' argsJSON w)
             = w\<lparr>spawned := spawned w @
                   [(''grep'', [''-n'', ''--color=never'']
                       @ (if getBool args ''recursive'' True then [''-r''] else [])
                       @ [''--'', getString args ''pattern'' [], p])]\<rparr>"
      using pat by (simp add: tool executeGrep_def path runCommand_def Let_def split: sum.splits)
    show "fst (ExecuteTool e ''grep'' argsJSON w)
             = (case runCommand_result (run_process e w ''grep''
                       ([''-n'', ''--color=never'']
                          @ (if getBool args ''recursive'' True then [''-r''] else [])
                          @ [''--'', getString args ''pattern'' [], p])) of
                  Inl err \<Rightarrow> Inl err
                | Inr result \<Rightarrow>
                    Inr (strings_Join
                           (filter (\<lambda>line. \<not> dropped_by_filter (blockedPatterns e) line)
                              (strings_Split result (CHR 0x0A))) [CHR 0x0A]))"
      using pat
      by (simp add: tool executeGrep_def path runCommand_def Let_def grep_filter_eq
            del: strings_Split.simps strings_Join.simps split: sum.splits)
  }
  {
    assume blocked: "IsPathBlocked (blockedPatterns e) p"
    show "ExecuteTool e ''cat'' argsJSON w = (Inl (AccessDenied p), w)"
      using a blocked by (simp add: tool executeCat_def path)
    show "ExecuteTool e ''head'' argsJSON w = (Inl (AccessDenied p), w)"
      using a blocked by (simp add: tool executeHead_def path)
  }
qed


theorem grep_path_not_gated_by_filter_witness:
  "IsPathBlocked (blockedPatterns example_env) ''.env''
   \<and> snd (ExecuteTool example_env ''grep'' grep_env_json example_world)
       = example_world\<lparr>spawned := spawned example_world @
           [(''grep'', [''-n'', ''--color=never'', ''-r'', ''--'', ''KEY'', ''.env''])]\<rparr>
   \<and> fst (ExecuteTool example_env ''grep'' grep_env_json example_world)
       = Inr (''1:API_KEY=secret'' @ [CHR 0x0A])
   \<and> ExecuteTool example_env ''cat'' grep_env_json example_world
       = (Inl (AccessDenied ''.env''), example_world)
   \<and> ExecuteTool example_env ''head'' grep_env_json example_world
       = (Inl (AccessDenied ''.env''), example_world)"
proof -
  let ?args = "[''pattern'' \<mapsto> JString ''KEY'', ''path'' \<mapsto> JString ''.env'']"
  let ?grepArgs = "[''-n'', ''--color=never'', ''-r'', ''--'', ''KEY'', ''.env'']"
  have decoded: "json_Unmarshal example_env grep_env_json = Inr ?args"
    by (simp add: example_env_def example_args_def)
  have path: "?args ''path'' = Some (JString ''.env'')" by simp
  have valid: "validatePath example_env ''.env'' = Inr ''.env''" by code_simp
  have pats: "blockedPatterns example_env = defaultBlockedPatterns"
    by (simp add: example_env_def)
  have blocked: "IsPathBlocked (blockedPatterns example_env) ''.env''"
    unfolding pats by code_simp
  have fields: "getBool ?args ''recursive'' True = True" "getString ?args ''pattern'' [] = ''KEY''"
    by (simp_all add: getBool_def getString_def)
  have pattern: "getString ?args ''pattern'' [] \<noteq> []" by (simp add: getString_def)
  have raw: "runCommand_result (run_process example_env example_world ''grep'' ?grepArgs)
      = Inr (''1:API_KEY=secret'' @ [CHR 0x0A])"
    by (simp add: example_env_def example_process_def runCommand_result_def maxLen_def)
  have kept: "strings_Join
        (filter (\<lambda>line. \<not> dropped_by_filter defaultBlockedPatterns line)
           (strings_Split (''1:API_KEY=secret'' @ [CHR 0x0A]) (CHR 0x0A))) [CHR 0x0A]
      = ''1:API_KEY=secret'' @ [CHR 0x0A]"
    by code_simp
  have hyps: "json_Unmarshal example_env grep_env_json = Inr ?args
      \<and> ?args ''path'' = Some (JString ''.env'') \<and> ''.env'' \<noteq> []
      \<and> validatePath example_env ''.env'' = Inr ''.env''"
    using decoded path valid by simp
  note inst = grep_path_not_gated_by_filter[of example_env grep_env_json example_world ?args
      "''.env''" "''.env''", THEN conjunct2, THEN mp, OF hyps]
  note searched = inst[THEN conjunct1, THEN mp, OF pattern]
  note denied = inst[THEN conjunct2, THEN mp, OF blocked]
  have 1: "snd (ExecuteTool example_env ''grep'' grep_env_json example_world)
       = example_world\<lparr>spawned := spawned example_world @ [(''grep'', ?grepArgs)]\<rparr>"
    using searched[THEN conjunct1] unfolding fields by simp
  have 2: "fst (ExecuteTool example_env ''grep'' grep_env_json example_world)
       = Inr (''1:API_KEY=secret'' @ [CHR 0x0A])"
    using searched[THEN conjunct2] kept unfolding fields pats
    by (simp add: raw[simplified] del: strings_Split.simps strings_Join.simps)
  show ?thesis using blocked 1 2 denied by (intro conjI) simp_all
qed

section \<open>Formatting markdown\<close>

text \<open>
  The four steps in the words of the specification.  Line endings: every \<open>\r\n\<close> and
  every other \<open>\r\<close> becomes \<open>\n\<close>.
\<close>

fun normalize_eol :: "string \<Rightarrow> string" where
  "normalize_eol [] = []"
| "normalize_eol [c] = [if c = CHR 0x0D then CHR 0x0A else c]"
| "normalize_eol (c # d # cs) =
     (if c = CHR 0x0D \<and> d = CHR 0x0A then CHR 0x0A # normalize_eol cs
      else if c = CHR 0x0D then CHR 0x0A # normalize_eol (d # cs)
      else c # normalize_eol (d # cs))"

text \<open>A line without the spaces and tabs at its end.\<close>

definition blank_char :: "char \<Rightarrow> bool" where
  "blank_char c = (c = CHR '' '' \<or> c = CHR 0x09)"

definition trim_line :: "string \<Rightarrow> string" where
  "trim_line l = rev (dropWhile blank_char (rev l))"

text \<open>
  Every maximal run of blank lines is cut to two lines at most: a run of \<open>n\<close> blank lines
  becomes \<open>min 2 n\<close> blank lines.
\<close>

function cap_blank_runs :: "string list \<Rightarrow> string list" where
  "cap_blank_runs [] = []"
| "cap_blank_runs (l # ls) =
     (if l = [] then
        replicate (min 2 (Suc (length (takeWhile (\<lambda>x. x = []) ls)))) []
          @ cap_blank_runs (dropWhile (\<lambda>x. x = []) ls)
      else l # cap_blank_runs ls)"
  by pat_completeness auto
termination
  by (relation "measure length") (auto simp: length_dropWhile_le le_imp_less_Suc)

declare cap_blank_runs.simps(2) [simp del]

text \<open>The blank lines at the end are dropped.\<close>

definition drop_trailing_blank :: "string list \<Rightarrow> string list" where
  "drop_trailing_blank ls = rev (dropWhile (\<lambda>l. l = []) (rev ls))"

lemma replace_normalize_eol: "replace_cr (replace_crlf s) = normalize_eol s"
  by (induction s rule: replace_crlf.induct) (auto simp: replace_cr_def)

lemma TrimRight_trim_line: "strings_TrimRight l [CHR '' '', CHR 0x09] = trim_line l"
proof -
  have "(\<lambda>c. c \<in> set [CHR '' '', CHR 0x09]) = blank_char"
    by (auto simp: blank_char_def fun_eq_iff)
  then show ?thesis by (simp add: strings_TrimRight_def trim_line_def)
qed

lemma cap_blank_runs_nonblank: "l \<noteq> [] \<Longrightarrow> cap_blank_runs (l # ls) = l # cap_blank_runs ls"
  by (simp add: cap_blank_runs.simps(2))

lemma cap_blank_runs_blank:
  "cap_blank_runs ([] # ls) =
     replicate (min 2 (Suc (length (takeWhile (\<lambda>x. x = []) ls)))) []
       @ cap_blank_runs (dropWhile (\<lambda>x. x = []) ls)"
  by (simp add: cap_blank_runs.simps(2))

lemma formatMarkdown_loop_nonblank:
  "trim_line l \<noteq> [] \<Longrightarrow>
   formatMarkdown_loop acc n (l # rest) = formatMarkdown_loop (acc @ [trim_line l]) 0 rest"
  by (simp add: TrimRight_trim_line Let_def)

lemma formatMarkdown_loop_blank_run:
  "(\<And>l. l \<in> set bs \<Longrightarrow> trim_line l = []) \<Longrightarrow>
   formatMarkdown_loop acc n (bs @ rest) =
     formatMarkdown_loop (acc @ replicate (min 2 (n + length bs) - min 2 n) [])
       (n + length bs) rest"
proof (induction bs arbitrary: acc n)
  case Nil
  then show ?case by simp
next
  case (Cons b bs)
  have b: "trim_line b = []" using Cons.prems by simp
  have IH: "formatMarkdown_loop acc' (Suc n) (bs @ rest) =
     formatMarkdown_loop (acc' @ replicate (min 2 (Suc n + length bs) - min 2 (Suc n)) [])
       (Suc n + length bs) rest" for acc'
    using Cons.IH[of acc' "Suc n"] Cons.prems by simp
  show ?case
  proof (cases "n < 2")
    case True
    then have "min 2 (n + length (b # bs)) - min 2 n
        = Suc (min 2 (Suc n + length bs) - min 2 (Suc n))"
      by (auto simp: min_def)
    with True show ?thesis
      by (simp add: TrimRight_trim_line b Let_def IH replicate_app_Cons_same)
  next
    case False
    then show ?thesis
      by (simp add: TrimRight_trim_line b Let_def IH min_def)
  qed
qed

lemma formatMarkdown_loop_cap:
  "formatMarkdown_loop acc 0 lines = acc @ cap_blank_runs (map trim_line lines)"
proof (induction lines arbitrary: acc rule: length_induct)
  case (1 lines)
  note IH = "1.IH"[rule_format]
  show ?case
  proof (cases lines)
    case Nil
    then show ?thesis by simp
  next
    case (Cons l ls)
    show ?thesis
    proof (cases "trim_line l = []")
      case False
      then show ?thesis
        using Cons IH[of ls "acc @ [trim_line l]"]
        by (simp add: formatMarkdown_loop_nonblank cap_blank_runs_nonblank
              del: formatMarkdown_loop.simps(2))
    next
      case True
      define bs where "bs = takeWhile (\<lambda>x. trim_line x = []) ls"
      define rest where "rest = dropWhile (\<lambda>x. trim_line x = []) ls"
      have ls: "ls = bs @ rest" by (simp add: bs_def rest_def)
      have blank: "trim_line x = []" if "x \<in> set (l # bs)" for x
        using that True by (auto simp: bs_def dest: set_takeWhileD)
      have tw: "takeWhile (\<lambda>x. x = []) (map trim_line ls) = map trim_line bs"
        by (simp add: bs_def takeWhile_map comp_def)
      have dw: "dropWhile (\<lambda>x. x = []) (map trim_line ls) = map trim_line rest"
        by (simp add: rest_def dropWhile_map comp_def)
      have spec: "cap_blank_runs (map trim_line lines) =
          replicate (min 2 (Suc (length bs))) [] @ cap_blank_runs (map trim_line rest)"
        using Cons True by (simp add: cap_blank_runs_blank tw dw)
      have code: "formatMarkdown_loop acc 0 lines =
          formatMarkdown_loop (acc @ replicate (min 2 (Suc (length bs))) [])
            (Suc (length bs)) rest"
        using formatMarkdown_loop_blank_run[of "l # bs" acc 0 rest] blank Cons ls
        by (simp del: formatMarkdown_loop.simps(2))
      show ?thesis
      proof (cases rest)
        case Nil
        then show ?thesis using spec code by simp
      next
        case (Cons r rs)
        then have r: "trim_line r \<noteq> []"
          using hd_dropWhile[of "\<lambda>x. trim_line x = []" ls] by (simp add: rest_def)
        have shorter: "length rs < length lines"
          using Cons ls \<open>lines = l # ls\<close> by simp
        show ?thesis
          using spec code Cons r
            IH[OF shorter, of "acc @ replicate (min 2 (Suc (length bs))) [] @ [trim_line r]"]
          by (simp add: formatMarkdown_loop_nonblank cap_blank_runs_nonblank
                del: formatMarkdown_loop.simps(2))
      qed
    qed
  qed
qed


lemma strings_Join_snoc:
  "strings_Join (ls @ [l]) sep = (if ls = [] then l else strings_Join ls sep @ sep @ l)"
  by (induction ls sep rule: strings_Join.induct) auto

lemma TrimRight_newline_snoc:
  "strings_TrimRight (s @ [CHR 0x0A]) [CHR 0x0A] = strings_TrimRight s [CHR 0x0A]"
  by (simp add: strings_TrimRight_def)

lemma TrimRight_newline_keep:
  "l \<noteq> [] \<Longrightarrow> last l \<noteq> CHR 0x0A \<Longrightarrow> strings_TrimRight (s @ l) [CHR 0x0A] = s @ l"
  by (cases l rule: rev_cases) (auto simp: strings_TrimRight_def)

lemma drop_trailing_blank_snoc:
  "drop_trailing_blank (ls @ [l]) = (if l = [] then drop_trailing_blank ls else ls @ [l])"
  by (simp add: drop_trailing_blank_def)

lemma TrimRight_Join:
  "(\<And>l. l \<in> set ls \<Longrightarrow> CHR 0x0A \<notin> set l) \<Longrightarrow>
   strings_TrimRight (strings_Join ls [CHR 0x0A]) [CHR 0x0A]
     = strings_Join (drop_trailing_blank ls) [CHR 0x0A]"
proof (induction ls rule: rev_induct)
  case Nil
  then show ?case by (simp add: strings_TrimRight_def drop_trailing_blank_def)
next
  case (snoc l ls)
  have IH: "strings_TrimRight (strings_Join ls [CHR 0x0A]) [CHR 0x0A]
     = strings_Join (drop_trailing_blank ls) [CHR 0x0A]"
    using snoc by simp
  show ?case
  proof (cases "l = []")
    case True
    show ?thesis
    proof (cases "ls = []")
      case True
      with \<open>l = []\<close> show ?thesis by (simp add: strings_TrimRight_def drop_trailing_blank_def)
    next
      case False
      with \<open>l = []\<close> show ?thesis
        using IH TrimRight_newline_snoc[of "strings_Join ls [CHR 0x0A]"]
        by (simp add: strings_Join_snoc drop_trailing_blank_snoc)
    qed
  next
    case False
    then have mem: "last l \<in> set l" by simp
    have free: "CHR 0x0A \<notin> set l" using snoc.prems[of l] by simp
    have "last l \<noteq> CHR 0x0A"
    proof
      assume "last l = CHR 0x0A"
      with mem have "CHR 0x0A \<in> set l" by simp
      with free show False by simp
    qed
    then have "strings_TrimRight (s @ l) [CHR 0x0A] = s @ l" for s
      using False by (rule TrimRight_newline_keep[rotated])
    from this[of "[]"] this[of "strings_Join ls [CHR 0x0A] @ [CHR 0x0A]"] False show ?thesis
      by (simp add: strings_Join_snoc drop_trailing_blank_snoc)
  qed
qed

lemma set_strings_Split: "l \<in> set (strings_Split s sep) \<Longrightarrow> set l \<subseteq> set s"
proof (induction s arbitrary: l)
  case Nil
  then show ?case by simp
next
  case (Cons c cs)
  show ?case
  proof (cases "c = sep")
    case True
    with Cons show ?thesis by auto
  next
    case False
    obtain x xs where split: "strings_Split cs sep = x # xs"
      using strings_Split_nonempty[of cs sep] by (cases "strings_Split cs sep") auto
    then have "set x \<subseteq> set cs" and "\<And>y. y \<in> set xs \<Longrightarrow> set y \<subseteq> set cs"
      using Cons.IH by auto
    with Cons.prems False split show ?thesis by auto
  qed
qed

lemma set_trim_line: "set (trim_line l) \<subseteq> set l"
  using set_dropWhileD[of _ blank_char "rev l"] by (auto simp: trim_line_def)

lemma set_cap_blank_runs: "l \<in> set (cap_blank_runs ls) \<Longrightarrow> l = [] \<or> l \<in> set ls"
proof (induction ls arbitrary: l rule: cap_blank_runs.induct)
  case 1
  then show ?case by simp
next
  case (2 x xs)
  show ?case
  proof (cases "x = []")
    case True
    with 2 show ?thesis
      by (auto simp: cap_blank_runs_blank dest: set_dropWhileD)
  next
    case False
    with 2 show ?thesis by (auto simp: cap_blank_runs_nonblank)
  qed
qed

lemma set_drop_trailing_blank: "set (drop_trailing_blank ls) \<subseteq> set ls"
  using set_dropWhileD[of _ "\<lambda>l. l = []" "rev ls"] by (auto simp: drop_trailing_blank_def)

lemma set_strings_Join: "set (strings_Join ls sep) \<subseteq> (\<Union>l \<in> set ls. set l) \<union> set sep"
  by (induction ls sep rule: strings_Join.induct) auto

lemma normalize_eol_no_cr: "CHR 0x0D \<notin> set (normalize_eol s)"
  by (induction s rule: normalize_eol.induct) auto

lemma trim_line_no_trailing_blank: "trim_line l = [] \<or> \<not> blank_char (last (trim_line l))"
proof (cases "dropWhile blank_char (rev l)")
  case Nil
  then show ?thesis by (simp add: trim_line_def)
next
  case (Cons c cs)
  then have "\<not> blank_char c" using hd_dropWhile[of blank_char "rev l"] by simp
  with Cons show ?thesis by (simp add: trim_line_def)
qed

lemma strings_Split_snoc_sep: "strings_Split (s @ [sep]) sep = strings_Split s sep @ [[]]"
  by (induction s) (auto split: list.splits simp: strings_Split_nonempty)

text \<open>
  The lines that \<open>formatMarkdown\<close> joins: the lines of the normalized content, trimmed,
  with blank runs cut to two and without the blank lines at the end.
\<close>

definition formatted_lines :: "string \<Rightarrow> string list" where
  "formatted_lines content =
     drop_trailing_blank
       (cap_blank_runs (map trim_line (strings_Split (normalize_eol content) (CHR 0x0A))))"

lemma formatted_lines_member:
  assumes "l \<in> set (formatted_lines content)"
  shows "CHR 0x0A \<notin> set l \<and> CHR 0x0D \<notin> set l \<and> (l = [] \<or> \<not> blank_char (last l))"
proof -
  from assms have "l \<in> set (cap_blank_runs (map trim_line
      (strings_Split (normalize_eol content) (CHR 0x0A))))"
    using set_drop_trailing_blank by (auto simp: formatted_lines_def)
  then consider "l = []"
    | x where "x \<in> set (strings_Split (normalize_eol content) (CHR 0x0A))" "l = trim_line x"
    using set_cap_blank_runs by fastforce
  then show ?thesis
  proof cases
    case 1
    then show ?thesis by simp
  next
    case 2
    have "CHR 0x0A \<notin> set x" using 2(1) by (rule strings_Split_lines_free)
    then have a: "CHR 0x0A \<notin> set l" using 2(2) set_trim_line[of x] by auto
    have "CHR 0x0D \<notin> set x"
      using set_strings_Split[OF 2(1)] normalize_eol_no_cr[of content] by auto
    then have b: "CHR 0x0D \<notin> set l" using 2(2) set_trim_line[of x] by auto
    have c: "l = [] \<or> \<not> blank_char (last l)"
      unfolding 2(2) by (rule trim_line_no_trailing_blank)
    show ?thesis using a b c by simp
  qed
qed

lemma formatMarkdown_formatted_lines:
  "formatMarkdown content = strings_Join (formatted_lines content) [CHR 0x0A] @ [CHR 0x0A]"
proof -
  let ?lines = "strings_Split (normalize_eol content) (CHR 0x0A)"
  let ?capped = "cap_blank_runs (map trim_line ?lines)"
  have free: "CHR 0x0A \<notin> set l" if "l \<in> set ?capped" for l
  proof -
    from that set_cap_blank_runs[of l "map trim_line ?lines"]
    consider "l = []" | x where "x \<in> set ?lines" "l = trim_line x" by auto
    then show ?thesis
    proof cases
      case 1
      then show ?thesis by simp
    next
      case 2
      then show ?thesis
        using strings_Split_lines_free[of x "normalize_eol content" "CHR 0x0A"] set_trim_line[of x]
        by auto
    qed
  qed
  show ?thesis
    using TrimRight_Join[of ?capped] free
    by (simp add: formatMarkdown_def Let_def replace_normalize_eol formatMarkdown_loop_cap
          formatted_lines_def del: strings_Split.simps)
qed


lemma cap_blank_runs_replicate: "cap_blank_runs (replicate n []) = replicate (min 2 n) []"
proof (cases n)
  case 0
  then show ?thesis by simp
next
  case (Suc m)
  then show ?thesis by (simp add: cap_blank_runs_blank)
qed

lemma cap_blank_runs_split:
  "p \<noteq> [] \<Longrightarrow> cap_blank_runs (pre @ p # rest) = cap_blank_runs pre @ p # cap_blank_runs rest"
proof (induction pre rule: cap_blank_runs.induct)
  case 1
  then show ?case by (simp add: cap_blank_runs_nonblank)
next
  case (2 x xs)
  show ?case
  proof (cases "x = []")
    case False
    with 2 show ?thesis by (simp add: cap_blank_runs_nonblank)
  next
    case True
    define bs where "bs = takeWhile (\<lambda>x. x = []) xs"
    define more where "more = dropWhile (\<lambda>x. x = []) xs"
    have xs: "xs = bs @ more" by (simp add: bs_def more_def)
    have blank: "\<And>b. b \<in> set bs \<Longrightarrow> b = []"
      by (auto simp: bs_def dest: set_takeWhileD)
    have IH: "cap_blank_runs (more @ p # rest) = cap_blank_runs more @ p # cap_blank_runs rest"
      using 2 True by (simp add: more_def)
    have hd_more: "more = [] \<or> hd more \<noteq> []"
      using hd_dropWhile[of "\<lambda>x. x = []" xs] by (auto simp: more_def)
    have tw: "takeWhile (\<lambda>x. x = []) (xs @ p # rest) = bs"
    proof (cases more)
      case Nil
      with xs blank \<open>p \<noteq> []\<close> show ?thesis by (simp add: takeWhile_append2)
    next
      case (Cons m ms)
      with hd_more have "m \<noteq> []" by simp
      with Cons xs blank show ?thesis by (simp add: takeWhile_append2)
    qed
    have dw: "dropWhile (\<lambda>x. x = []) (xs @ p # rest) = more @ p # rest"
    proof (cases more)
      case Nil
      with xs blank \<open>p \<noteq> []\<close> show ?thesis by (simp add: dropWhile_append2)
    next
      case (Cons m ms)
      with hd_more have "m \<noteq> []" by simp
      with Cons xs blank show ?thesis by (simp add: dropWhile_append2)
    qed
    show ?thesis
      using True IH by (simp add: cap_blank_runs_blank tw dw bs_def[symmetric] more_def[symmetric])
  qed
qed

text \<open>
  A run of \<open>n\<close> blank lines that starts the text or follows a line that is not blank,
  and is followed by a line that is not blank, becomes \<open>min 2 n\<close> blank lines: exactly two
  when \<open>n\<close> is more than two.
\<close>

lemma cap_blank_runs_run:
  assumes "l \<noteq> []" and "pre = [] \<or> last pre \<noteq> []"
  shows "cap_blank_runs (pre @ replicate n [] @ l # post)
           = cap_blank_runs pre @ replicate (min 2 n) [] @ l # cap_blank_runs post"
proof -
  have "cap_blank_runs (pre @ replicate n [] @ l # post)
      = cap_blank_runs (pre @ replicate n []) @ l # cap_blank_runs post"
    using cap_blank_runs_split[OF assms(1), of "pre @ replicate n []" post] by simp
  moreover have "cap_blank_runs (pre @ replicate n []) = cap_blank_runs pre @ replicate (min 2 n) []"
  proof (cases pre rule: rev_cases)
    case Nil
    then show ?thesis by (simp add: cap_blank_runs_replicate)
  next
    case (snoc qs q)
    with assms(2) have q: "q \<noteq> []" by simp
    show ?thesis
      using cap_blank_runs_split[OF q, of qs "replicate n []"] cap_blank_runs_split[OF q, of qs "[]"]
      by (simp add: snoc cap_blank_runs_replicate)
  qed
  ultimately show ?thesis by simp
qed

lemma drop_trailing_blank_last:
  "drop_trailing_blank ls = [] \<or> last (drop_trailing_blank ls) \<noteq> []"
proof (cases "dropWhile (\<lambda>l. l = []) (rev ls)")
  case Nil
  then show ?thesis by (simp add: drop_trailing_blank_def)
next
  case (Cons x xs)
  then have "x \<noteq> []" using hd_dropWhile[of "\<lambda>l. l = []" "rev ls"] by simp
  with Cons show ?thesis by (simp add: drop_trailing_blank_def)
qed

lemma last_strings_Join:
  "ls \<noteq> [] \<Longrightarrow> last ls \<noteq> [] \<Longrightarrow>
   strings_Join ls sep \<noteq> [] \<and> last (strings_Join ls sep) = last (last ls)"
  by (cases ls rule: rev_cases) (auto simp: strings_Join_snoc)

text \<open>
  Claim C7, as amended.  The result of \<open>formatMarkdown\<close> is made of the lines of the
  content with \<open>\r\n\<close> and \<open>\r\<close> read as \<open>\n\<close>, each line without its trailing spaces and
  tabs, each run of blank lines cut to two lines at most, and without the blank lines at
  the end, every line followed by one newline.  So the result holds no carriage return,
  ends with exactly one newline, none of its lines ends with a space or a tab, and a run
  of \<open>n\<close> blank lines before a line that is not blank comes out as \<open>min 2 n\<close> blank lines.
  The content \<open># Title\n\n\n\n\nBody\n\n\n\nTail\<close> gives \<open># Title\n\n\nBody\n\n\nTail\n\<close>.
\<close>

theorem formatMarkdown_normalizes:
  "formatMarkdown content
     = strings_Join
         (drop_trailing_blank
            (cap_blank_runs
               (map trim_line (strings_Split (normalize_eol content) (CHR 0x0A)))))
         [CHR 0x0A] @ [CHR 0x0A]
   \<and> CHR 0x0D \<notin> set (formatMarkdown content)
   \<and> (\<exists>body. formatMarkdown content = body @ [CHR 0x0A]
         \<and> (body = [] \<or> last body \<noteq> CHR 0x0A))
   \<and> (\<forall>l \<in> set (strings_Split (formatMarkdown content) (CHR 0x0A)).
         l = [] \<or> \<not> blank_char (last l))
   \<and> (\<forall>pre n l post. l \<noteq> [] \<and> (pre = [] \<or> last pre \<noteq> []) \<longrightarrow>
         cap_blank_runs (pre @ replicate n [] @ l # post)
           = cap_blank_runs pre @ replicate (min 2 n) [] @ l # cap_blank_runs post)
   \<and> formatMarkdown (''# Title'' @ [CHR 0x0A, CHR 0x0A, CHR 0x0A, CHR 0x0A, CHR 0x0A] @ ''Body''
         @ [CHR 0x0A, CHR 0x0A, CHR 0x0A, CHR 0x0A] @ ''Tail'')
       = ''# Title'' @ [CHR 0x0A, CHR 0x0A, CHR 0x0A] @ ''Body''
         @ [CHR 0x0A, CHR 0x0A, CHR 0x0A] @ ''Tail'' @ [CHR 0x0A]"
proof -
  let ?fl = "formatted_lines content"
  let ?body = "strings_Join ?fl [CHR 0x0A]"
  have eq: "formatMarkdown content = ?body @ [CHR 0x0A]"
    by (rule formatMarkdown_formatted_lines)
  have member: "CHR 0x0A \<notin> set l \<and> CHR 0x0D \<notin> set l \<and> (l = [] \<or> \<not> blank_char (last l))"
    if "l \<in> set ?fl" for l
    using that by (rule formatted_lines_member)
  have 1: "formatMarkdown content
     = strings_Join
         (drop_trailing_blank
            (cap_blank_runs
               (map trim_line (strings_Split (normalize_eol content) (CHR 0x0A)))))
         [CHR 0x0A] @ [CHR 0x0A]"
    using eq by (simp add: formatted_lines_def)
  have 2: "CHR 0x0D \<notin> set (formatMarkdown content)"
  proof
    assume "CHR 0x0D \<in> set (formatMarkdown content)"
    then have "CHR 0x0D \<in> set ?body" by (simp add: eq)
    then obtain l where "l \<in> set ?fl" "CHR 0x0D \<in> set l"
      using set_strings_Join[of ?fl "[CHR 0x0A]"] by auto
    then show False using member by blast
  qed
  have 3: "\<exists>body. formatMarkdown content = body @ [CHR 0x0A]
         \<and> (body = [] \<or> last body \<noteq> CHR 0x0A)"
  proof (cases "?fl = []")
    case True
    then show ?thesis using eq by simp
  next
    case False
    then have nonblank: "last ?fl \<noteq> []"
      using drop_trailing_blank_last[of "cap_blank_runs
        (map trim_line (strings_Split (normalize_eol content) (CHR 0x0A)))"]
      by (simp add: formatted_lines_def)
    have "last ?fl \<in> set ?fl" using False by simp
    then have free: "CHR 0x0A \<notin> set (last ?fl)" using member by blast
    have mem: "last (last ?fl) \<in> set (last ?fl)" using nonblank by simp
    have "last (last ?fl) \<noteq> CHR 0x0A"
    proof
      assume "last (last ?fl) = CHR 0x0A"
      with mem have "CHR 0x0A \<in> set (last ?fl)" by simp
      with free show False by simp
    qed
    then have "last ?body \<noteq> CHR 0x0A"
      using last_strings_Join[OF False nonblank, of "[CHR 0x0A]"] by simp
    then show ?thesis using eq by blast
  qed
  have 4: "\<forall>l \<in> set (strings_Split (formatMarkdown content) (CHR 0x0A)).
         l = [] \<or> \<not> blank_char (last l)"
  proof
    fix l
    assume l: "l \<in> set (strings_Split (formatMarkdown content) (CHR 0x0A))"
    have lines: "strings_Split (formatMarkdown content) (CHR 0x0A)
        = strings_Split ?body (CHR 0x0A) @ [[]]"
      unfolding eq by (rule strings_Split_snoc_sep)
    have "strings_Split ?body (CHR 0x0A) = (if ?fl = [] then [[]] else ?fl)"
      using strings_Split_Join[of ?fl "CHR 0x0A"] member by auto
    with l lines have "l = [] \<or> l \<in> set ?fl" by (auto split: if_splits)
    then show "l = [] \<or> \<not> blank_char (last l)" using member by blast
  qed
  have 5: "\<forall>pre n l post. l \<noteq> [] \<and> (pre = [] \<or> last pre \<noteq> []) \<longrightarrow>
         cap_blank_runs (pre @ replicate n [] @ l # post)
           = cap_blank_runs pre @ replicate (min 2 n) [] @ l # cap_blank_runs post"
    using cap_blank_runs_run by blast
  have 6: "formatMarkdown (''# Title'' @ [CHR 0x0A, CHR 0x0A, CHR 0x0A, CHR 0x0A, CHR 0x0A] @ ''Body''
         @ [CHR 0x0A, CHR 0x0A, CHR 0x0A, CHR 0x0A] @ ''Tail'')
       = ''# Title'' @ [CHR 0x0A, CHR 0x0A, CHR 0x0A] @ ''Body''
         @ [CHR 0x0A, CHR 0x0A, CHR 0x0A] @ ''Tail'' @ [CHR 0x0A]"
    by code_simp
  show ?thesis using 1 2 3 4 5 6 by (intro conjI)
qed


theorem formatMarkdown_normalizes_witness:
  "formatMarkdown (''a  '' @ [CHR 0x0D, CHR 0x0A, CHR 0x0A, CHR 0x0A, CHR 0x0A] @ ''b'' @ [CHR 0x0D])
     = ''a'' @ [CHR 0x0A, CHR 0x0A, CHR 0x0A] @ ''b'' @ [CHR 0x0A]
   \<and> CHR 0x0D \<notin> set (formatMarkdown
         (''a  '' @ [CHR 0x0D, CHR 0x0A, CHR 0x0A, CHR 0x0A, CHR 0x0A] @ ''b'' @ [CHR 0x0D]))
   \<and> cap_blank_runs ([''a''] @ replicate 3 [] @ ''b'' # [])
       = cap_blank_runs [''a''] @ replicate (min 2 3) [] @ ''b'' # cap_blank_runs []"
proof -
  let ?input = "''a  '' @ [CHR 0x0D, CHR 0x0A, CHR 0x0A, CHR 0x0A, CHR 0x0A] @ ''b'' @ [CHR 0x0D]"
  note inst = formatMarkdown_normalizes[of ?input]
  have run: "formatMarkdown ?input = ''a'' @ [CHR 0x0A, CHR 0x0A, CHR 0x0A] @ ''b'' @ [CHR 0x0A]"
    by code_simp
  have no_cr: "CHR 0x0D \<notin> set (formatMarkdown ?input)"
    by (rule inst[THEN conjunct2, THEN conjunct1])
  have bounds: "''b'' \<noteq> [] \<and> ([''a''] = [] \<or> last [''a''] \<noteq> [])" by simp
  have capped: "cap_blank_runs ([''a''] @ replicate 3 [] @ ''b'' # [])
       = cap_blank_runs [''a''] @ replicate (min 2 3) [] @ ''b'' # cap_blank_runs []"
    by (rule inst[THEN conjunct2, THEN conjunct2, THEN conjunct2, THEN conjunct2, THEN conjunct1,
          rule_format, OF bounds])
  show ?thesis using run no_cr capped by (intro conjI)
qed

text \<open>
  The claim as written also promises two blank lines for a run at the end of the
  content.  The content \<open>A\n\n\n\n\n\<close> has the lines \<open>A\<close> and then only blank ones; the
  result is \<open>A\n\<close>, with no blank line left.
\<close>

theorem formatMarkdown_trailing_run_counterexample:
  "strings_Split (''A'' @ [CHR 0x0A, CHR 0x0A, CHR 0x0A, CHR 0x0A, CHR 0x0A]) (CHR 0x0A)
     = [''A'', [], [], [], [], []]
   \<and> formatMarkdown (''A'' @ [CHR 0x0A, CHR 0x0A, CHR 0x0A, CHR 0x0A, CHR 0x0A])
     = ''A'' @ [CHR 0x0A]
   \<and> strings_Split (formatMarkdown (''A'' @ [CHR 0x0A, CHR 0x0A, CHR 0x0A, CHR 0x0A, CHR 0x0A]))
       (CHR 0x0A) = [''A'', []]"
proof -
  have 1: "strings_Split (''A'' @ [CHR 0x0A, CHR 0x0A, CHR 0x0A, CHR 0x0A, CHR 0x0A]) (CHR 0x0A)
     = [''A'', [], [], [], [], []]"
    by code_simp
  have 2: "formatMarkdown (''A'' @ [CHR 0x0A, CHR 0x0A, CHR 0x0A, CHR 0x0A, CHR 0x0A])
     = ''A'' @ [CHR 0x0A]"
    by code_simp
  have 3: "strings_Split (formatMarkdown (''A'' @ [CHR 0x0A, CHR 0x0A, CHR 0x0A, CHR 0x0A, CHR 0x0A]))
       (CHR 0x0A) = [''A'', []]"
    by code_simp
  show ?thesis using 1 2 3 by (intro conjI)
qed

section \<open>The history of a conversation\<close>

definition system_message :: Message where
  "system_message =
     \<lparr>Role = ''system'', Content = systemPrompt, ToolCalls = [], ToolCallID = [],
      Reasoning = []\<rparr>"

text \<open>What one reply of the model contributes to the history, when it carries a message.\<close>

definition reply_message :: "string + ChatResponse \<Rightarrow> Message option" where
  "reply_message reply =
     (case reply of
        Inl err \<Rightarrow> None
      | Inr resp \<Rightarrow> (case Choices resp of [] \<Rightarrow> None | choice # others \<Rightarrow> Some (Choice_Message choice)))"

text \<open>
  The tool messages that answer an assistant message: one per tool call, in order, each
  with the role \<open>tool\<close> and the id of its call.
\<close>

definition answers :: "Message \<Rightarrow> Message list \<Rightarrow> bool" where
  "answers m results =
     (map Role results = replicate (length (ToolCalls m)) ''tool''
        \<and> map ToolCallID results = map ToolCall_ID (ToolCalls m))"

lemma run_tool_calls_appends:
  "run_tool_calls e cb tcs msgs w = (msgs', w') \<Longrightarrow>
   \<exists>results. msgs' = msgs @ results
     \<and> map Role results = replicate (length tcs) ''tool''
     \<and> map ToolCallID results = map ToolCall_ID tcs"
proof (induction tcs arbitrary: msgs w)
  case Nil
  then show ?case by simp
next
  case (Cons tc tcs)
  obtain r w1 where ex: "ExecuteTool e (Function_Name tc) (Function_Arguments tc) w = (r, w1)"
    by (cases "ExecuteTool e (Function_Name tc) (Function_Arguments tc) w")
  define result where
    "result = (case r of Inl err \<Rightarrow> ''Error: '' @ error_text err | Inr out \<Rightarrow> out)"
  define w2 where
    "w2 = (case cb of None \<Rightarrow> w1
           | Some f \<Rightarrow> f (Function_Name tc) (Function_Arguments tc) result w1)"
  define tm where
    "tm = \<lparr>Role = ''tool'', Content = result, ToolCalls = [], ToolCallID = ToolCall_ID tc,
            Reasoning = []\<rparr>"
  have "run_tool_calls e cb tcs (msgs @ [tm]) w2 = (msgs', w')"
    using Cons.prems unfolding tm_def w2_def result_def by (simp add: ex Let_def)
  from Cons.IH[OF this] obtain results where
    r: "msgs' = (msgs @ [tm]) @ results"
       "map Role results = replicate (length tcs) ''tool''"
       "map ToolCallID results = map ToolCall_ID tcs"
    by blast
  show ?case
    by (rule exI[of _ "tm # results"]) (simp add: r tm_def)
qed

lemma Chat_loop_appends:
  "Chat_loop e cb replies c w = Some (r, c', w') \<Longrightarrow>
   \<exists>rounds. messages c' = messages c @ concat (map (\<lambda>(m, results). m # results) rounds)
     \<and> (\<forall>(m, results) \<in> set rounds. answers m results)
     \<and> map (\<lambda>(m, results). Some m) rounds = map reply_message (take (length rounds) replies)
     \<and> config c' = config c"
proof (induction replies arbitrary: c w)
  case Nil
  then show ?case by simp
next
  case (Cons reply replies)
  show ?case
  proof (cases reply)
    case (Inl err)
    with Cons.prems have "c' = c" by simp
    then show ?thesis by (intro exI[of _ "[]"]) simp
  next
    case (Inr resp)
    show ?thesis
    proof (cases "Choices resp")
      case Nil
      with Inr Cons.prems have "c' = c" by simp
      then show ?thesis by (intro exI[of _ "[]"]) simp
    next
      case (Cons choice others)
      define m where "m = Choice_Message choice"
      have rm: "reply_message reply = Some m"
        by (simp add: reply_message_def Inr Cons m_def)
      show ?thesis
      proof (cases "ToolCalls m = []")
        case True
        with Inr Cons Cons.prems have "c' = c\<lparr>messages := messages c @ [m]\<rparr>"
          by (simp add: m_def Let_def)
        then show ?thesis
          using True rm by (intro exI[of _ "[(m, [])]"]) (simp add: answers_def)
      next
        case False
        obtain msgs w1 where rt:
          "run_tool_calls e cb (ToolCalls m) (messages c @ [m]) w = (msgs, w1)"
          by (cases "run_tool_calls e cb (ToolCalls m) (messages c @ [m]) w")
        from run_tool_calls_appends[OF rt] obtain results where
          res: "msgs = (messages c @ [m]) @ results" "answers m results"
          by (auto simp: answers_def)
        have "Chat_loop e cb replies (c\<lparr>messages := msgs\<rparr>) w1 = Some (r, c', w')"
          using Cons.prems Inr Cons False rt by (simp add: m_def Let_def)
        from Cons.IH[OF this] obtain rounds where
          IH: "messages c' = msgs @ concat (map (\<lambda>(m, results). m # results) rounds)"
              "\<forall>(m, results) \<in> set rounds. answers m results"
              "map (\<lambda>(m, results). Some m) rounds = map reply_message (take (length rounds) replies)"
              "config c' = config c"
          by auto
        show ?thesis
          using IH res rm by (intro exI[of _ "(m, results) # rounds"]) simp
      qed
    qed
  qed
qed

lemma reachable_system_first:
  "reachable c \<Longrightarrow> messages c \<noteq> [] \<and> hd (messages c) = system_message"
proof (induction rule: reachable.induct)
  case (new cfg)
  then show ?case by (simp add: NewClient_def system_message_def)
next
  case (chat c e replies userMessage onToolCall w r c' w')
  from Chat_loop_appends[OF chat.hyps(2)[unfolded Chat_def]] obtain added where
    "messages c' = (messages c @ [user_message userMessage]) @ added"
    by auto
  with chat.IH show ?case by simp
next
  case (reset c c')
  then show ?case by (cases "messages c") (auto simp: Reset_def split: if_splits)
qed

text \<open>
  Claim C8.  For every client that a program can hold (made by \<open>NewClient\<close>, then used
  with \<open>Chat\<close> and \<open>Reset\<close> any number of times, whatever the replies of the model and the
  results of the tools), the history is not empty and starts with the system message that
  \<open>NewClient\<close> installed; and \<open>Reset\<close> succeeds and leaves exactly that one message, whose
  role is \<open>system\<close>.
\<close>

theorem Reset_leaves_system_message:
  assumes "reachable c"
  shows "messages c \<noteq> [] \<and> hd (messages c) = system_message
       \<and> (\<exists>c'. Reset c = Some c' \<and> messages c' = [system_message]
            \<and> length (messages c') = 1 \<and> Role (hd (messages c')) = ''system''
            \<and> reachable c')"
proof -
  from reachable_system_first[OF assms] have inv: "messages c \<noteq> []" "hd (messages c) = system_message"
    by simp_all
  then have t: "take 1 (messages c) = [system_message]" by (cases "messages c") auto
  have r: "Reset c = Some (c\<lparr>messages := [system_message]\<rparr>)"
    using inv t by (simp add: Reset_def)
  have "reachable (c\<lparr>messages := [system_message]\<rparr>)"
    using reachable.reset[OF assms r] .
  then show ?thesis using inv r by (simp add: system_message_def)
qed


text \<open>An example conversation: the model asks for a blocked file, then answers.\<close>

definition example_config :: Config where
  "example_config =
     \<lparr>APIKey = ''test-key'', BaseURL = ''https://api.example.com/v1'', Model = ''gpt-4''\<rparr>"

definition cat_env_call :: ToolCall where
  "cat_env_call =
     \<lparr>ToolCall_ID = ''call_abc'', ToolCall_Type = ''function'', Function_Name = ''cat'',
      Function_Arguments = grep_env_json\<rparr>"

definition tool_reply :: ChatResponse where
  "tool_reply =
     \<lparr>ChatResponse_ID = ''chatcmpl-1'',
      Choices = [\<lparr>Choice_Message =
                    \<lparr>Role = ''assistant'', Content = [], ToolCalls = [cat_env_call],
                     ToolCallID = [], Reasoning = []\<rparr>,
                  FinishReason = ''tool_calls''\<rparr>]\<rparr>"

definition final_reply :: ChatResponse where
  "final_reply =
     \<lparr>ChatResponse_ID = ''chatcmpl-2'',
      Choices = [\<lparr>Choice_Message =
                    \<lparr>Role = ''assistant'', Content = ''Done.'', ToolCalls = [],
                     ToolCallID = [], Reasoning = []\<rparr>,
                  FinishReason = ''stop''\<rparr>]\<rparr>"

definition reasoning_reply :: ChatResponse where
  "reasoning_reply =
     \<lparr>ChatResponse_ID = ''chatcmpl-3'',
      Choices = [\<lparr>Choice_Message =
                    \<lparr>Role = ''assistant'', Content = [], ToolCalls = [],
                     ToolCallID = [], Reasoning = ''Only in reasoning.''\<rparr>,
                  FinishReason = ''stop''\<rparr>]\<rparr>"

lemma example_cat_denied:
  "ExecuteTool example_env ''cat'' grep_env_json example_world
     = (Inl (AccessDenied ''.env''), example_world)"
proof -
  let ?args = "[''pattern'' \<mapsto> JString ''KEY'', ''path'' \<mapsto> JString ''.env'']"
  have decoded: "json_Unmarshal example_env grep_env_json = Inr ?args"
    by (simp add: example_env_def example_args_def)
  have valid: "validatePath example_env ''.env'' = Inr ''.env''" by code_simp
  have blocked: "IsPathBlocked (blockedPatterns example_env) ''.env''"
    unfolding example_env_def by (simp, code_simp)
  show ?thesis
    using blocked by (simp add: ExecuteTool_def decoded valid executeCat_def getString_def)
qed

text \<open>
  In the words of the specification.  A reply asks for tools when it carries a message
  with at least one tool call; any other reply ends the call of \<open>Chat\<close>: a failed request
  and a response without choices with an error, a message without tool calls with its
  text.
\<close>

definition asks_tools :: "string + ChatResponse \<Rightarrow> bool" where
  "asks_tools reply =
     (case reply_message reply of None \<Rightarrow> False | Some m \<Rightarrow> ToolCalls m \<noteq> [])"

text \<open>The message a reply adds to the history, if it carries one.\<close>

definition closing :: "string + ChatResponse \<Rightarrow> Message list" where
  "closing reply = (case reply_message reply of None \<Rightarrow> [] | Some m \<Rightarrow> [m])"

text \<open>The text of a final answer: the content, or the reasoning when there is no content.\<close>

definition final_text :: "Message \<Rightarrow> string" where
  "final_text m = (if Content m = [] \<and> Reasoning m \<noteq> [] then Reasoning m else Content m)"

definition Chat_outcome :: "string + ChatResponse \<Rightarrow> chat_error + string" where
  "Chat_outcome reply =
     (case reply of
        Inl err \<Rightarrow> Inl (RequestError err)
      | Inr resp \<Rightarrow>
          (case Choices resp of
             [] \<Rightarrow> Inl NoResponse
           | choice # others \<Rightarrow> Inr (final_text (Choice_Message choice))))"

text \<open>
  The tool messages of one round: one for each tool call, in order, holding the result of
  the tool (or the text of its error) and the id of the call; each tool runs in the world
  that the calls before it, and the callback, have left.
\<close>

definition tool_message :: "ToolCall \<Rightarrow> string \<Rightarrow> Message" where
  "tool_message tc text =
     \<lparr>Role = ''tool'', Content = text, ToolCalls = [], ToolCallID = ToolCall_ID tc,
      Reasoning = []\<rparr>"

definition result_text :: "tool_error + string \<Rightarrow> string" where
  "result_text r = (case r of Inl err \<Rightarrow> ''Error: '' @ error_text err | Inr out \<Rightarrow> out)"

fun tool_results ::
  "env \<Rightarrow> (string \<Rightarrow> string \<Rightarrow> string \<Rightarrow> world \<Rightarrow> world) option \<Rightarrow> ToolCall list \<Rightarrow> world
     \<Rightarrow> Message list \<times> world" where
  "tool_results e onToolCall [] w = ([], w)"
| "tool_results e onToolCall (tc # tcs) w =
     (case ExecuteTool e (Function_Name tc) (Function_Arguments tc) w of
        (r, w1) \<Rightarrow>
          (case tool_results e onToolCall tcs
                  (case onToolCall of
                     None \<Rightarrow> w1
                   | Some f \<Rightarrow> f (Function_Name tc) (Function_Arguments tc) (result_text r) w1) of
             (rest, w2) \<Rightarrow> (tool_message tc (result_text r) # rest, w2)))"

text \<open>
  The rounds of one call of \<open>Chat\<close>: each assistant message that asks for tools, with the
  tool messages that answer it.
\<close>

fun tool_rounds ::
  "env \<Rightarrow> (string \<Rightarrow> string \<Rightarrow> string \<Rightarrow> world \<Rightarrow> world) option \<Rightarrow> Message list \<Rightarrow> world
     \<Rightarrow> (Message \<times> Message list) list \<times> world" where
  "tool_rounds e onToolCall [] w = ([], w)"
| "tool_rounds e onToolCall (m # ms) w =
     (case tool_results e onToolCall (ToolCalls m) w of
        (results, w1) \<Rightarrow>
          (case tool_rounds e onToolCall ms w1 of
             (rest, w2) \<Rightarrow> ((m, results) # rest, w2)))"

lemma run_tool_calls_results:
  "run_tool_calls e cb tcs msgs w
     = (msgs @ fst (tool_results e cb tcs w), snd (tool_results e cb tcs w))"
proof (induction tcs arbitrary: msgs w)
  case Nil
  then show ?case by simp
next
  case (Cons tc tcs)
  obtain r w1 where ex: "ExecuteTool e (Function_Name tc) (Function_Arguments tc) w = (r, w1)"
    by (cases "ExecuteTool e (Function_Name tc) (Function_Arguments tc) w")
  define w2 where
    "w2 = (case cb of None \<Rightarrow> w1
           | Some f \<Rightarrow> f (Function_Name tc) (Function_Arguments tc) (result_text r) w1)"
  have left: "run_tool_calls e cb (tc # tcs) msgs w
      = run_tool_calls e cb tcs (msgs @ [tool_message tc (result_text r)]) w2"
    unfolding w2_def result_text_def tool_message_def by (simp add: ex Let_def)
  have right: "tool_results e cb (tc # tcs) w
      = (tool_message tc (result_text r) # fst (tool_results e cb tcs w2),
         snd (tool_results e cb tcs w2))"
    by (simp add: ex w2_def split: prod.splits)
  show ?case unfolding left right Cons.IH by simp
qed

lemma tool_results_answers:
  "map Role (fst (tool_results e cb tcs w)) = replicate (length tcs) ''tool''
   \<and> map ToolCallID (fst (tool_results e cb tcs w)) = map ToolCall_ID tcs
   \<and> length (fst (tool_results e cb tcs w)) = length tcs"
proof (induction tcs arbitrary: w)
  case Nil
  then show ?case by simp
next
  case (Cons tc tcs)
  obtain r w1 where ex: "ExecuteTool e (Function_Name tc) (Function_Arguments tc) w = (r, w1)"
    by (cases "ExecuteTool e (Function_Name tc) (Function_Arguments tc) w")
  define w2 where
    "w2 = (case cb of None \<Rightarrow> w1
           | Some f \<Rightarrow> f (Function_Name tc) (Function_Arguments tc) (result_text r) w1)"
  have right: "tool_results e cb (tc # tcs) w
      = (tool_message tc (result_text r) # fst (tool_results e cb tcs w2),
         snd (tool_results e cb tcs w2))"
    by (simp add: ex w2_def split: prod.splits)
  show ?case unfolding right using Cons.IH[of w2] by (simp add: tool_message_def)
qed

lemma tool_rounds_answers:
  "map fst (fst (tool_rounds e cb ms w)) = ms
   \<and> (\<forall>(m, results) \<in> set (fst (tool_rounds e cb ms w)).
         answers m results \<and> length results = length (ToolCalls m))"
proof (induction ms arbitrary: w)
  case Nil
  then show ?case by simp
next
  case (Cons m ms)
  define w1 where "w1 = snd (tool_results e cb (ToolCalls m) w)"
  have right: "tool_rounds e cb (m # ms) w
      = ((m, fst (tool_results e cb (ToolCalls m) w)) # fst (tool_rounds e cb ms w1),
         snd (tool_rounds e cb ms w1))"
    by (simp add: w1_def split: prod.splits)
  have this_round: "answers m (fst (tool_results e cb (ToolCalls m) w))
      \<and> length (fst (tool_results e cb (ToolCalls m) w)) = length (ToolCalls m)"
    using tool_results_answers[of e cb "ToolCalls m" w] by (simp add: answers_def)
  show ?case unfolding right using Cons.IH[of w1] this_round by simp
qed

lemma asks_tools_message:
  assumes "asks_tools reply"
  obtains resp choice others where "reply = Inr resp" "Choices resp = choice # others"
    "ToolCalls (Choice_Message choice) \<noteq> []" "closing reply = [Choice_Message choice]"
  using assms
  by (auto simp: asks_tools_def reply_message_def closing_def
           split: sum.splits list.splits option.splits)

lemma closing_asking_length:
  "list_all asks_tools asking \<Longrightarrow> length (concat (map closing asking)) = length asking"
proof (induction asking)
  case Nil
  then show ?case by simp
next
  case (Cons reply asking)
  from Cons.prems have "asks_tools reply" by simp
  then obtain m where "closing reply = [m]" by (rule asks_tools_message)
  with Cons show ?case by simp
qed

lemma Chat_loop_stop:
  assumes "\<not> asks_tools stop"
  shows "Chat_loop e cb (stop # later) c w
     = Some (Chat_outcome stop, c\<lparr>messages := messages c @ closing stop\<rparr>, w)"
proof (cases stop)
  case (Inl err)
  then show ?thesis by (simp add: Chat_outcome_def closing_def reply_message_def)
next
  case (Inr resp)
  show ?thesis
  proof (cases "Choices resp")
    case Nil
    with Inr show ?thesis by (simp add: Chat_outcome_def closing_def reply_message_def)
  next
    case (Cons choice others)
    with Inr assms have "ToolCalls (Choice_Message choice) = []"
      by (simp add: asks_tools_def reply_message_def)
    with Inr Cons show ?thesis
      by (simp add: Chat_outcome_def closing_def reply_message_def final_text_def Let_def)
  qed
qed

lemma Chat_loop_rounds:
  assumes "list_all asks_tools asking" and "\<not> asks_tools stop"
  shows "Chat_loop e cb (asking @ stop # later) c w
     = Some (Chat_outcome stop,
             c\<lparr>messages := messages c
                  @ concat (map (\<lambda>(m, results). m # results)
                              (fst (tool_rounds e cb (concat (map closing asking)) w)))
                  @ closing stop\<rparr>,
             snd (tool_rounds e cb (concat (map closing asking)) w))"
  using assms(1)
proof (induction asking arbitrary: c w)
  case Nil
  show ?case using Chat_loop_stop[OF assms(2)] by simp
next
  case (Cons reply asking)
  from Cons.prems have first: "asks_tools reply" and rest: "list_all asks_tools asking"
    by simp_all
  from first obtain resp choice others where
    reply: "reply = Inr resp" "Choices resp = choice # others"
    and calls: "ToolCalls (Choice_Message choice) \<noteq> []"
    and cl: "closing reply = [Choice_Message choice]"
    by (rule asks_tools_message)
  define m where "m = Choice_Message choice"
  define results where "results = fst (tool_results e cb (ToolCalls m) w)"
  define w1 where "w1 = snd (tool_results e cb (ToolCalls m) w)"
  have step: "Chat_loop e cb ((reply # asking) @ stop # later) c w
      = Chat_loop e cb (asking @ stop # later)
          (c\<lparr>messages := messages c @ [m] @ results\<rparr>) w1"
    using calls
    by (simp add: reply m_def results_def w1_def run_tool_calls_results Let_def)
  have rounds: "tool_rounds e cb (concat (map closing (reply # asking))) w
      = ((m, results) # fst (tool_rounds e cb (concat (map closing asking)) w1),
         snd (tool_rounds e cb (concat (map closing asking)) w1))"
    by (simp add: cl m_def results_def w1_def split: prod.splits)
  show ?case unfolding step rounds Cons.IH[OF rest] by simp
qed

lemma Chat_loop_asking:
  "list_all asks_tools replies \<Longrightarrow> Chat_loop e cb replies c w = None"
proof (induction replies arbitrary: c w)
  case Nil
  then show ?case by simp
next
  case (Cons reply replies)
  from Cons.prems have first: "asks_tools reply" and rest: "list_all asks_tools replies"
    by simp_all
  from first obtain resp choice others where
    reply: "reply = Inr resp" "Choices resp = choice # others"
    and calls: "ToolCalls (Choice_Message choice) \<noteq> []"
    by (rule asks_tools_message)
  show ?case
    using calls Cons.IH[OF rest]
    by (simp add: reply Let_def split: prod.splits)
qed

text \<open>
  Claim C4, as amended.  On a client whose history is the system message alone, when the
  first reply carries exactly one tool call and the second none, \<open>Chat\<close> returns the
  content of the second reply, or its reasoning text when the content is empty and the
  reasoning is not, and the history is then: system, user, the first reply's message, the
  tool message (the result of the call, or the text of its error, with the id of the
  call), the second reply's message.  In general, when the model asks for tools in some
  replies and then gives a reply that does not, \<open>Chat\<close> returns with what that reply
  comes to, and the history has grown by exactly: the user message; then, for each reply
  that asked for tools, in order, its message and one tool message for each of its tool
  calls; then the message of the last reply, if it carries one.  As long as every reply
  asks for tools, \<open>Chat\<close> does not return.
\<close>

theorem Chat_tool_round_history:
  "(messages c = [system_message]
      \<and> Choices r1 = ch1 # others1 \<and> ToolCalls (Choice_Message ch1) = [tc]
      \<and> Choices r2 = ch2 # others2 \<and> ToolCalls (Choice_Message ch2) = [] \<longrightarrow>
      (\<exists>c' w'.
         Chat e (Inr r1 # Inr r2 # later) c userMessage onToolCall w
           = Some (Inr (if Content (Choice_Message ch2) = [] \<and> Reasoning (Choice_Message ch2) \<noteq> []
                        then Reasoning (Choice_Message ch2) else Content (Choice_Message ch2)),
                   c', w')
         \<and> messages c'
           = [system_message, user_message userMessage, Choice_Message ch1,
              \<lparr>Role = ''tool'',
               Content =
                 (case fst (ExecuteTool e (Function_Name tc) (Function_Arguments tc) w) of
                    Inl err \<Rightarrow> ''Error: '' @ error_text err
                  | Inr out \<Rightarrow> out),
               ToolCalls = [], ToolCallID = ToolCall_ID tc, Reasoning = []\<rparr>,
              Choice_Message ch2]))
   \<and> (list_all asks_tools asking \<and> \<not> asks_tools stop \<longrightarrow>
        (\<exists>rounds w'.
           tool_rounds e onToolCall (concat (map closing asking)) w = (rounds, w')
           \<and> Chat e (asking @ stop # later) c userMessage onToolCall w
             = Some (Chat_outcome stop,
                     c\<lparr>messages := messages c @ [user_message userMessage]
                          @ concat (map (\<lambda>(m, results). m # results) rounds)
                          @ closing stop\<rparr>,
                     w')
           \<and> map fst rounds = concat (map closing asking)
           \<and> length rounds = length asking
           \<and> (\<forall>(m, results) \<in> set rounds.
                 answers m results \<and> length results = length (ToolCalls m))))
   \<and> (list_all asks_tools replies \<longrightarrow>
        Chat e replies c userMessage onToolCall w = None)"
proof (intro conjI impI)
  assume a: "messages c = [system_message]
      \<and> Choices r1 = ch1 # others1 \<and> ToolCalls (Choice_Message ch1) = [tc]
      \<and> Choices r2 = ch2 # others2 \<and> ToolCalls (Choice_Message ch2) = []"
  obtain r w1 where ex: "ExecuteTool e (Function_Name tc) (Function_Arguments tc) w = (r, w1)"
    by (cases "ExecuteTool e (Function_Name tc) (Function_Arguments tc) w")
  show "\<exists>c' w'.
         Chat e (Inr r1 # Inr r2 # later) c userMessage onToolCall w
           = Some (Inr (if Content (Choice_Message ch2) = [] \<and> Reasoning (Choice_Message ch2) \<noteq> []
                        then Reasoning (Choice_Message ch2) else Content (Choice_Message ch2)),
                   c', w')
         \<and> messages c'
           = [system_message, user_message userMessage, Choice_Message ch1,
              \<lparr>Role = ''tool'',
               Content =
                 (case fst (ExecuteTool e (Function_Name tc) (Function_Arguments tc) w) of
                    Inl err \<Rightarrow> ''Error: '' @ error_text err
                  | Inr out \<Rightarrow> out),
               ToolCalls = [], ToolCallID = ToolCall_ID tc, Reasoning = []\<rparr>,
              Choice_Message ch2]"
    using a by (simp add: Chat_def ex Let_def)
next
  assume a: "list_all asks_tools asking \<and> \<not> asks_tools stop"
  then have asking: "list_all asks_tools asking" and stop: "\<not> asks_tools stop" by simp_all
  define c0 where "c0 = c\<lparr>messages := messages c @ [user_message userMessage]\<rparr>"
  define rounds where "rounds = fst (tool_rounds e onToolCall (concat (map closing asking)) w)"
  define w' where "w' = snd (tool_rounds e onToolCall (concat (map closing asking)) w)"
  have computed: "tool_rounds e onToolCall (concat (map closing asking)) w = (rounds, w')"
    by (simp add: rounds_def w'_def)
  have run: "Chat e (asking @ stop # later) c userMessage onToolCall w
      = Some (Chat_outcome stop,
              c\<lparr>messages := messages c @ [user_message userMessage]
                   @ concat (map (\<lambda>(m, results). m # results) rounds) @ closing stop\<rparr>,
              w')"
    unfolding Chat_def Chat_loop_rounds[OF asking stop] rounds_def w'_def by simp
  note facts = tool_rounds_answers[of e onToolCall "concat (map closing asking)" w]
  have carried: "map fst rounds = concat (map closing asking)"
    using facts by (simp add: rounds_def)
  have count: "length rounds = length asking"
    using arg_cong[OF carried, of length] closing_asking_length[OF asking] by simp
  have each: "\<forall>(m, results) \<in> set rounds.
      answers m results \<and> length results = length (ToolCalls m)"
    using facts by (simp add: rounds_def)
  show "\<exists>rounds w'.
           tool_rounds e onToolCall (concat (map closing asking)) w = (rounds, w')
           \<and> Chat e (asking @ stop # later) c userMessage onToolCall w
             = Some (Chat_outcome stop,
                     c\<lparr>messages := messages c @ [user_message userMessage]
                          @ concat (map (\<lambda>(m, results). m # results) rounds)
                          @ closing stop\<rparr>,
                     w')
           \<and> map fst rounds = concat (map closing asking)
           \<and> length rounds = length asking
           \<and> (\<forall>(m, results) \<in> set rounds.
                 answers m results \<and> length results = length (ToolCalls m))"
    using computed run carried count each by blast
next
  assume "list_all asks_tools replies"
  then show "Chat e replies c userMessage onToolCall w = None"
    unfolding Chat_def by (rule Chat_loop_asking)
qed

lemma example_chat_run:
  "\<exists>c1 w1.
     Chat example_env [Inr tool_reply, Inr final_reply] (NewClient example_config)
       ''Where is the key?'' None example_world = Some (Inr ''Done.'', c1, w1)
     \<and> length (messages c1) = 5"
  by (simp add: Chat_def NewClient_def tool_reply_def final_reply_def cat_env_call_def
        example_cat_denied user_message_def Let_def)

text \<open>A reply with two tool calls: the blocked file again, and arguments that do not decode.\<close>

definition ls_bad_call :: ToolCall where
  "ls_bad_call =
     \<lparr>ToolCall_ID = ''call_def'', ToolCall_Type = ''function'', Function_Name = ''ls'',
      Function_Arguments = ''{''\<rparr>"

definition two_calls_reply :: ChatResponse where
  "two_calls_reply =
     \<lparr>ChatResponse_ID = ''chatcmpl-4'',
      Choices = [\<lparr>Choice_Message =
                    \<lparr>Role = ''assistant'', Content = [],
                     ToolCalls = [cat_env_call, ls_bad_call],
                     ToolCallID = [], Reasoning = []\<rparr>,
                  FinishReason = ''tool_calls''\<rparr>]\<rparr>"

lemma example_bad_arguments:
  "ExecuteTool example_env ''ls'' ''{'' w
     = (Inl (InvalidArguments ''invalid character''),
        PrintError ''Failed to parse tool arguments: invalid character'' w)"
  by (simp add: ExecuteTool_def example_env_def example_args_def grep_env_json_def
        write_notes_json_def)

theorem Chat_tool_round_history_witness:
  "(\<exists>c' w'.
      Chat example_env [Inr tool_reply, Inr final_reply] (NewClient example_config)
        ''Where is the key?'' None example_world = Some (Inr ''Done.'', c', w')
      \<and> map Role (messages c') = [''system'', ''user'', ''assistant'', ''tool'', ''assistant'']
      \<and> map ToolCallID (messages c') = [[], [], [], ''call_abc'', []]
      \<and> Content (messages c' ! 3) = ''Error: access denied: .env is in ignore list'')
   \<and> (\<exists>c' w'.
        Chat example_env [Inr two_calls_reply, Inr final_reply] (NewClient example_config)
          ''Where is the key?'' None example_world = Some (Inr ''Done.'', c', w')
        \<and> map Role (messages c')
          = [''system'', ''user'', ''assistant'', ''tool'', ''tool'', ''assistant'']
        \<and> map ToolCallID (messages c') = [[], [], [], ''call_abc'', ''call_def'', []]
        \<and> map Content (drop 3 (messages c'))
          = [''Error: access denied: .env is in ignore list'',
             ''Error: invalid arguments: invalid character'', ''Done.'']
        \<and> printed w'
          = [''Error: Failed to parse tool arguments: invalid character'' @ [CHR 0x0A]])
   \<and> Chat example_env [Inr tool_reply, Inr two_calls_reply] (NewClient example_config)
        ''Where is the key?'' None example_world = None"
proof -
  let ?m1 = "\<lparr>Role = ''assistant'', Content = [], ToolCalls = [cat_env_call],
               ToolCallID = [], Reasoning = []\<rparr>"
  let ?m2 = "\<lparr>Role = ''assistant'', Content = ''Done.'', ToolCalls = [],
               ToolCallID = [], Reasoning = []\<rparr>"
  let ?m3 = "\<lparr>Role = ''assistant'', Content = [], ToolCalls = [cat_env_call, ls_bad_call],
               ToolCallID = [], Reasoning = []\<rparr>"
  let ?ch1 = "\<lparr>Choice_Message = ?m1, FinishReason = ''tool_calls''\<rparr>"
  let ?ch2 = "\<lparr>Choice_Message = ?m2, FinishReason = ''stop''\<rparr>"
  have call: "Function_Name cat_env_call = ''cat''" "Function_Arguments cat_env_call = grep_env_json"
    "ToolCall_ID cat_env_call = ''call_abc''"
    by (simp_all add: cat_env_call_def)
  have call2: "Function_Name ls_bad_call = ''ls''" "Function_Arguments ls_bad_call = ''{''"
    "ToolCall_ID ls_bad_call = ''call_def''"
    by (simp_all add: ls_bad_call_def)
  have hyps: "messages (NewClient example_config) = [system_message]
      \<and> Choices tool_reply = ?ch1 # [] \<and> ToolCalls (Choice_Message ?ch1) = [cat_env_call]
      \<and> Choices final_reply = ?ch2 # [] \<and> ToolCalls (Choice_Message ?ch2) = []"
    by (simp add: NewClient_def system_message_def tool_reply_def final_reply_def)
  note inst = Chat_tool_round_history[where e = example_env and later = "[]"
        and userMessage = "''Where is the key?''" and onToolCall = None and w = example_world,
      THEN conjunct1, THEN mp, OF hyps]
  from inst obtain c' w' where
    run: "Chat example_env [Inr tool_reply, Inr final_reply] (NewClient example_config)
       ''Where is the key?'' None example_world = Some (Inr ''Done.'', c', w')"
    and history: "messages c'
           = [system_message, user_message ''Where is the key?'', ?m1,
              \<lparr>Role = ''tool'',
               Content =
                 (case fst (ExecuteTool example_env (Function_Name cat_env_call)
                              (Function_Arguments cat_env_call) example_world) of
                    Inl err \<Rightarrow> ''Error: '' @ error_text err
                  | Inr out \<Rightarrow> out),
               ToolCalls = [], ToolCallID = ToolCall_ID cat_env_call, Reasoning = []\<rparr>,
              ?m2]"
    by auto
  have one: "\<exists>c' w'.
      Chat example_env [Inr tool_reply, Inr final_reply] (NewClient example_config)
        ''Where is the key?'' None example_world = Some (Inr ''Done.'', c', w')
      \<and> map Role (messages c') = [''system'', ''user'', ''assistant'', ''tool'', ''assistant'']
      \<and> map ToolCallID (messages c') = [[], [], [], ''call_abc'', []]
      \<and> Content (messages c' ! 3) = ''Error: access denied: .env is in ignore list''"
    using run
    by (intro exI[of _ c'] exI[of _ w'])
       (simp add: history call example_cat_denied system_message_def user_message_def)
  have asking: "list_all asks_tools [Inr two_calls_reply] \<and> \<not> asks_tools (Inr final_reply)"
    by (simp add: asks_tools_def reply_message_def two_calls_reply_def final_reply_def)
  have carried: "concat (map closing [Inr two_calls_reply]) = [?m3]"
    by (simp add: closing_def reply_message_def two_calls_reply_def)
  have rounds: "tool_rounds example_env None [?m3] example_world
      = ([(?m3, [tool_message cat_env_call ''Error: access denied: .env is in ignore list'',
                 tool_message ls_bad_call ''Error: invalid arguments: invalid character''])],
         PrintError ''Failed to parse tool arguments: invalid character'' example_world)"
    by (simp add: call call2 example_cat_denied example_bad_arguments result_text_def)
  note inst2 = Chat_tool_round_history[where e = example_env and asking = "[Inr two_calls_reply]"
        and stop = "Inr final_reply" and later = "[]" and c = "NewClient example_config"
        and userMessage = "''Where is the key?''" and onToolCall = None and w = example_world,
      THEN conjunct2, THEN conjunct1, THEN mp, OF asking]
  from inst2 obtain rs w2 where
    computed: "tool_rounds example_env None (concat (map closing [Inr two_calls_reply]))
        example_world = (rs, w2)"
    and run2: "Chat example_env ([Inr two_calls_reply] @ Inr final_reply # [])
        (NewClient example_config) ''Where is the key?'' None example_world
      = Some (Chat_outcome (Inr final_reply),
              NewClient example_config
                \<lparr>messages := messages (NewClient example_config)
                     @ [user_message ''Where is the key?'']
                     @ concat (map (\<lambda>(m, results). m # results) rs)
                     @ closing (Inr final_reply)\<rparr>,
              w2)"
    by blast
  from computed have rs: "rs = [(?m3, [tool_message cat_env_call
                                        ''Error: access denied: .env is in ignore list'',
                 tool_message ls_bad_call ''Error: invalid arguments: invalid character''])]"
    and w2: "w2 = PrintError ''Failed to parse tool arguments: invalid character'' example_world"
    unfolding carried rounds by simp_all
  have outcome: "Chat_outcome (Inr final_reply) = Inr ''Done.''"
    by (simp add: Chat_outcome_def final_reply_def final_text_def)
  have last: "closing (Inr final_reply) = [?m2]"
    by (simp add: closing_def reply_message_def final_reply_def)
  let ?c2 = "NewClient example_config
                \<lparr>messages := messages (NewClient example_config)
                     @ [user_message ''Where is the key?'']
                     @ concat (map (\<lambda>(m, results). m # results) rs)
                     @ closing (Inr final_reply)\<rparr>"
  have two: "\<exists>c' w'.
        Chat example_env [Inr two_calls_reply, Inr final_reply] (NewClient example_config)
          ''Where is the key?'' None example_world = Some (Inr ''Done.'', c', w')
        \<and> map Role (messages c')
          = [''system'', ''user'', ''assistant'', ''tool'', ''tool'', ''assistant'']
        \<and> map ToolCallID (messages c') = [[], [], [], ''call_abc'', ''call_def'', []]
        \<and> map Content (drop 3 (messages c'))
          = [''Error: access denied: .env is in ignore list'',
             ''Error: invalid arguments: invalid character'', ''Done.'']
        \<and> printed w'
          = [''Error: Failed to parse tool arguments: invalid character'' @ [CHR 0x0A]]"
    using run2
    by (intro exI[of _ ?c2] exI[of _ w2])
       (simp add: outcome last rs w2 NewClient_def user_message_def tool_message_def call call2
          PrintError_def example_world_def)
  have unending: "list_all asks_tools [Inr tool_reply, Inr two_calls_reply]"
    by (simp add: asks_tools_def reply_message_def two_calls_reply_def tool_reply_def)
  note inst3 = Chat_tool_round_history[where e = example_env
        and replies = "[Inr tool_reply, Inr two_calls_reply]" and c = "NewClient example_config"
        and userMessage = "''Where is the key?''" and onToolCall = None and w = example_world,
      THEN conjunct2, THEN conjunct2, THEN mp, OF unending]
  show ?thesis using one two inst3 by (intro conjI)
qed

text \<open>
  The claim as written says that \<open>Chat\<close> returns the content of the second reply.  When
  that content is empty and the reply carries reasoning text, \<open>Chat\<close> returns the
  reasoning text.
\<close>

theorem Chat_returns_reasoning_counterexample:
  "length (ToolCalls (Choice_Message (hd (Choices tool_reply)))) = 1
   \<and> ToolCalls (Choice_Message (hd (Choices reasoning_reply))) = []
   \<and> Content (Choice_Message (hd (Choices reasoning_reply))) = []
   \<and> (\<exists>c' w'.
         Chat example_env [Inr tool_reply, Inr reasoning_reply] (NewClient example_config)
           ''Where is the key?'' None example_world = Some (Inr ''Only in reasoning.'', c', w'))"
  by (simp add: Chat_def NewClient_def tool_reply_def reasoning_reply_def cat_env_call_def
        example_cat_denied user_message_def Let_def)

theorem Reset_leaves_system_message_witness:
  "\<exists>c1 w1.
     Chat example_env [Inr tool_reply, Inr final_reply] (NewClient example_config)
       ''Where is the key?'' None example_world = Some (Inr ''Done.'', c1, w1)
     \<and> length (messages c1) = 5
     \<and> (\<exists>c'. Reset c1 = Some c' \<and> messages c' = [system_message]
           \<and> Role (hd (messages c')) = ''system'')"
proof -
  from example_chat_run obtain c1 w1 where
    run: "Chat example_env [Inr tool_reply, Inr final_reply] (NewClient example_config)
       ''Where is the key?'' None example_world = Some (Inr ''Done.'', c1, w1)"
    and len: "length (messages c1) = 5"
    by blast
  have "reachable c1" using reachable.chat[OF reachable.new run] .
  from Reset_leaves_system_message[OF this] obtain c' where
    "Reset c1 = Some c'" "messages c' = [system_message]" "Role (hd (messages c')) = ''system''"
    by blast
  with run len show ?thesis by blast
qed

section \<open>Writing a markdown file\<close>

















end
